theory Spec2Isabelle
  imports Complex_Main "HOL-Library.Word" "HOL-Library.Monad_Syntax"
begin

section \<open>Machine types\<close>

text \<open>
  The SDL integer types are words of their width. A \<open>GLfloat\<close> is kept as its 32-bit
  pattern, so that what is written to a file and read back is the same object bit for bit;
  \<open>fval\<close> reads the pattern as the IEEE 754 single-precision number it denotes.
  Arithmetic on floats and doubles is exact arithmetic on these values: rounding is not
  part of the model, and the patterns with exponent 255 (infinities and NaNs) are read by
  the same formula as every other pattern. A \<open>GLdouble\<close> is a real number. Where the
  source stores the result of a computation in a \<open>GLfloat\<close>, the conversion is the
  parameter \<open>rnd\<close> of the function. \<open>malloc\<close> is taken to succeed; fresh memory holds the
  value given as parameter \<open>junk\<close>.
\<close>

type_synonym Uint8 = "8 word"
type_synonym Uint16 = "16 word"
type_synonym Uint32 = "32 word"
type_synonym GLfloat = "32 word"
type_synonym GLdouble = real

definition fval :: "GLfloat \<Rightarrow> real" where
  "fval w = (let n = unat w; e = (n div 2 ^ 23) mod 256; m = n mod 2 ^ 23;
       mag = (if e = 0 then real m / 2 ^ 149 else real (2 ^ 23 + m) * 2 ^ e / 2 ^ 150)
     in if n div 2 ^ 31 = 1 then - mag else mag)"

definition FLT_MAX :: GLfloat where
  "FLT_MAX = 0x7F7FFFFF"

definition FLT_MIN :: GLfloat where
  "FLT_MIN = 0x00800000"

definition FLT_EPSILON :: real where
  "FLT_EPSILON = 1 / 2 ^ 23"

definition DBL_EPSILON :: real where
  "DBL_EPSILON = 1 / 2 ^ 52"

definition DBL_MAX :: real where
  "DBL_MAX = (2 ^ 53 - 1) * 2 ^ 971"

text \<open>\<open>strlen\<close> and \<open>strcpy\<close> see the bytes before the first NUL.\<close>

definition c_str :: "Uint8 list \<Rightarrow> Uint8 list" where
  "c_str s = takeWhile (\<lambda>c. c \<noteq> 0) s"

definition c_malloc :: "nat \<Rightarrow> 'a \<Rightarrow> 'a list" where
  "c_malloc n junk = replicate n junk"

definition c_realloc :: "nat \<Rightarrow> 'a list \<Rightarrow> 'a \<Rightarrow> 'a list" where
  "c_realloc n xs junk = take n xs @ replicate (n - length xs) junk"

text \<open>
  The loop \<open>for (k = 0; k < n; k++) if (P k) break;\<close> leaves \<open>k\<close> at the first index
  that satisfies \<open>P\<close>, or at \<open>n\<close>.
\<close>

definition first_index :: "(nat \<Rightarrow> bool) \<Rightarrow> nat \<Rightarrow> nat" where
  "first_index P n = (case find P [0..<n] of Some k \<Rightarrow> k | None \<Rightarrow> n)"


section \<open>Binary streams\<close>

text \<open>
  A file is the list of its bytes. \<open>fwrite\<close> of an integer or a float appends its bytes,
  least significant first (the format is little-endian, and a float is written as its
  32-bit pattern). A reader takes bytes from the front and is \<open>None\<close> when the stream
  ends inside the item: the source goes on there with whatever the destination held.
\<close>

definition le16 :: "Uint16 \<Rightarrow> Uint8 list" where
  "le16 w = [ucast w, ucast (drop_bit 8 w)]"

definition le32 :: "Uint32 \<Rightarrow> Uint8 list" where
  "le32 w = [ucast w, ucast (drop_bit 8 w), ucast (drop_bit 16 w), ucast (drop_bit 24 w)]"

definition of_le16 :: "Uint8 list \<Rightarrow> Uint16" where
  "of_le16 bs = word_cat (bs ! 1) (bs ! 0)"

definition of_le32 :: "Uint8 list \<Rightarrow> Uint32" where
  "of_le32 bs = word_cat (word_cat (bs ! 3) (bs ! 2) :: Uint16) (word_cat (bs ! 1) (bs ! 0) :: Uint16)"

type_synonym 'a reader = "Uint8 list \<Rightarrow> ('a \<times> Uint8 list) option"

definition rd_bytes :: "nat \<Rightarrow> (Uint8 list) reader" where
  "rd_bytes n bs = (if n \<le> length bs then Some (take n bs, drop n bs) else None)"

definition rd_u8 :: "Uint8 reader" where
  "rd_u8 bs = (case bs of [] \<Rightarrow> None | b # bs' \<Rightarrow> Some (b, bs'))"

definition rd_u16 :: "Uint16 reader" where
  "rd_u16 bs = map_option (\<lambda>(x, r). (of_le16 x, r)) (rd_bytes 2 bs)"

definition rd_u32 :: "Uint32 reader" where
  "rd_u32 bs = map_option (\<lambda>(x, r). (of_le32 x, r)) (rd_bytes 4 bs)"

text \<open>\<open>fread\<close> of \<open>n\<close> items into an array.\<close>

primrec rd_array :: "nat \<Rightarrow> 'a reader \<Rightarrow> ('a list) reader" where
  "rd_array 0 rd bs = Some ([], bs)"
| "rd_array (Suc n) rd bs =
     (case rd bs of None \<Rightarrow> None
      | Some (x, bs') \<Rightarrow> (case rd_array n rd bs' of None \<Rightarrow> None | Some (xs, bs'') \<Rightarrow> Some (x # xs, bs'')))"

text \<open>
  The loop that reads a texture name: \<open>j\<close> counts the bytes stored so far in
  \<open>inpTexName\<close>, which are \<open>acc\<close>. It stops after a NUL, or after the byte stored at index
  255, which is then overwritten by NUL; the name is what \<open>strcpy\<close> copies.
\<close>

fun rd_name_loop :: "nat \<Rightarrow> Uint8 list \<Rightarrow> (Uint8 list) reader" where
  "rd_name_loop j acc [] = None"
| "rd_name_loop j acc (b # bs) =
     (if b \<noteq> 0 \<and> j < 255 then rd_name_loop (j + 1) (acc @ [b]) bs
      else Some (c_str (take 255 (acc @ [b])), bs))"

definition rd_name :: "(Uint8 list) reader" where
  "rd_name bs = rd_name_loop 0 [] bs"

text \<open>
  What a loader hands back: \<open>NULL\<close>, a loaded object, or no return at all. The process
  ends through \<open>exit(EXIT_FAILURE)\<close>; or the source reads past the end of the stream, or
  outside an array, and what it does then is not determined by the stream. \<open>OutOfFuel\<close>
  belongs to the model of the recursive reader only.
\<close>

datatype exit_cause = CorruptFile Uint8 | DegenerateTriangle

datatype stop = Exit exit_cause | ShortRead | OutsideRead | OutOfFuel

datatype 'a load_result = LoadNull | Loaded 'a | LoadStop stop

section \<open>gld.h, gld.c: the indexed mesh\<close>

definition GLD_FILE_MAGIC :: "Uint8 list" where
  "GLD_FILE_MAGIC = [0x47, 0x4C, 0x44]"

definition GLD_VER :: Uint8 where
  "GLD_VER = 0x10"

definition GLD_VERT_ORD_EPSILON :: real where
  "GLD_VERT_ORD_EPSILON = 0.0011276372445"

definition GLD_TEX_ORD_EPSILON :: real where
  "GLD_TEX_ORD_EPSILON = 0.00390625"

record GLData =
  nMaps :: Uint16
  mapNames :: "Uint8 list list"
  mapTriNums :: "Uint32 list"
  nVertices :: Uint16
  vertCoords :: "GLfloat list"
  texCoords :: "GLfloat list"
  minX :: GLfloat
  maxX :: GLfloat
  minY :: GLfloat
  maxY :: GLfloat
  minZ :: GLfloat
  maxZ :: GLfloat
  numTri :: Uint32
  triFaces :: "Uint16 list list"

text \<open>The mesh under construction, with the local flag \<open>skippedTris\<close> of \<open>GenGLData\<close>.\<close>

record GenState = GLData +
  skippedTris :: bool

subsection \<open>GenGLData\<close>

text \<open>
  First loop of \<open>GenGLData\<close>: count the triangles of each texture; an index that is not
  below \<open>nMaps\<close> ends the function with \<open>NULL\<close>.
\<close>

fun GenGLData_count :: "(nat \<Rightarrow> Uint16) \<Rightarrow> Uint16 \<Rightarrow> Uint32 list \<Rightarrow> Uint32 list \<Rightarrow> Uint32 list option" where
  "GenGLData_count texIndices nm [] cnt = Some cnt"
| "GenGLData_count texIndices nm (i # is) cnt =
     (let tIndex = texIndices (unat i) in
      if tIndex \<ge> nm then None
      else GenGLData_count texIndices nm is (cnt[unat tIndex := cnt ! unat tIndex + 1]))"

text \<open>The test of the search loop: entry \<open>k\<close> of the table is close enough to \<open>(V, T)\<close>.\<close>

definition gld_close :: "GLfloat list \<Rightarrow> GLfloat list \<Rightarrow> GLfloat list \<Rightarrow> GLfloat list \<Rightarrow> nat \<Rightarrow> bool" where
  "gld_close vc tc V T k \<longleftrightarrow>
     \<bar>fval (vc ! (3 * k + 0)) - fval (V ! 0)\<bar> \<le> GLD_VERT_ORD_EPSILON \<and>
     \<bar>fval (vc ! (3 * k + 1)) - fval (V ! 1)\<bar> \<le> GLD_VERT_ORD_EPSILON \<and>
     \<bar>fval (vc ! (3 * k + 2)) - fval (V ! 2)\<bar> \<le> GLD_VERT_ORD_EPSILON \<and>
     \<bar>fval (tc ! (2 * k + 0)) - fval (T ! 0)\<bar> \<le> GLD_TEX_ORD_EPSILON \<and>
     \<bar>fval (tc ! (2 * k + 1)) - fval (T ! 1)\<bar> \<le> GLD_TEX_ORD_EPSILON"

text \<open>
  Body of the loop over \<open>j\<close>: look \<open>(V, T)\<close> up, or define it at index \<open>nVertices\<close> and
  widen the bounds. The result is the state and \<open>vInd[j]\<close>. \<open>nVertices\<close> is a
  \<open>Uint16\<close>, so the increment wraps.
\<close>

definition GenGLData_vertex :: "GLfloat list \<Rightarrow> GLfloat list \<Rightarrow> GenState \<Rightarrow> GenState \<times> Uint16" where
  "GenGLData_vertex V T s =
     (let k = first_index (gld_close (vertCoords s) (texCoords s) V T) (unat (nVertices s)) in
      if k < unat (nVertices s) then (s, word_of_nat k)
      else
        (s\<lparr> vertCoords := (vertCoords s)[3 * k + 0 := V ! 0, 3 * k + 1 := V ! 1, 3 * k + 2 := V ! 2],
            texCoords := (texCoords s)[2 * k + 0 := T ! 0, 2 * k + 1 := T ! 1],
            nVertices := nVertices s + 1,
            minX := (if fval (V ! 0) < fval (minX s) then V ! 0 else minX s),
            maxX := (if fval (V ! 0) > fval (maxX s) then V ! 0 else maxX s),
            minY := (if fval (V ! 1) < fval (minY s) then V ! 1 else minY s),
            maxY := (if fval (V ! 1) > fval (maxY s) then V ! 1 else maxY s),
            minZ := (if fval (V ! 2) < fval (minZ s) then V ! 2 else minZ s),
            maxZ := (if fval (V ! 2) > fval (maxZ s) then V ! 2 else maxZ s) \<rparr>,
         word_of_nat k))"

text \<open>
  Body of the second loop over \<open>i\<close>. The array indices \<open>9*i + 3*j + c\<close> are computed in
  \<open>Uint32\<close>; the slot \<open>idx\<close> of the face is the triangle count cut to a \<open>Uint16\<close>.
\<close>

definition GenGLData_triangle ::
  "(nat \<Rightarrow> GLfloat) \<Rightarrow> (nat \<Rightarrow> Uint16) \<Rightarrow> (nat \<Rightarrow> GLfloat) \<Rightarrow> Uint32 \<Rightarrow> GenState \<Rightarrow> GenState" where
  "GenGLData_triangle triVerts texIndices triTexCoords i s =
     (let tIndex = texIndices (unat i);
          V = (\<lambda>j::Uint32. [triVerts (unat (9 * i + 3 * j + 0)), triVerts (unat (9 * i + 3 * j + 1)),
                  triVerts (unat (9 * i + 3 * j + 2))]);
          T = (\<lambda>j::Uint32. [triTexCoords (unat (6 * i + 2 * j + 0)), triTexCoords (unat (6 * i + 2 * j + 1))]);
          (s0, v0) = GenGLData_vertex (V 0) (T 0) s;
          (s1, v1) = GenGLData_vertex (V 1) (T 1) s0;
          (s2, v2) = GenGLData_vertex (V 2) (T 2) s1
      in
      if v0 = v1 \<or> v1 = v2 \<or> v2 = v0 then s2\<lparr> skippedTris := True \<rparr>
      else
        (let idx = (ucast (mapTriNums s2 ! unat tIndex) :: Uint16);
             face = triFaces s2 ! unat tIndex
         in s2\<lparr> triFaces := (triFaces s2)[unat tIndex :=
                   face[3 * unat idx + 0 := v0, 3 * unat idx + 1 := v1, 3 * unat idx + 2 := v2]],
                mapTriNums := (mapTriNums s2)[unat tIndex := mapTriNums s2 ! unat tIndex + 1],
                numTri := numTri s2 + 1 \<rparr>))"

text \<open>
  The state of \<open>GenGLData\<close> before its second loop: the names copied, the counters reset,
  the tables allocated for \<open>3 * nTri\<close> vertices and the index array of texture \<open>i\<close> for
  the \<open>cnt ! i\<close> triangles counted by the first loop.
\<close>

definition GenGLData_init ::
  "GLfloat \<Rightarrow> Uint16 \<Rightarrow> Uint32 \<Rightarrow> Uint16 \<Rightarrow> (nat \<Rightarrow> Uint8 list) \<Rightarrow> Uint32 list \<Rightarrow> GenState" where
  "GenGLData_init junkf junki nTri nm texMapNames cnt =
     \<lparr> nMaps = nm,
       mapNames = map (\<lambda>i. c_str (texMapNames i)) [0..<unat nm],
       mapTriNums = replicate (unat nm) 0,
       nVertices = 0,
       vertCoords = c_malloc (3 * 3 * unat nTri) junkf,
       texCoords = c_malloc (2 * 3 * unat nTri) junkf,
       minX = FLT_MAX, maxX = FLT_MIN,
       minY = FLT_MAX, maxY = FLT_MIN,
       minZ = FLT_MAX, maxZ = FLT_MIN,
       numTri = 0,
       triFaces = map (\<lambda>i. c_malloc (unat (3 * cnt ! i)) junki) [0..<unat nm],
       skippedTris = False \<rparr>"

text \<open>
  The end of \<open>GenGLData\<close>: the tables are cut to \<open>nVertices\<close> entries, and the index arrays
  to the recounted \<open>mapTriNums\<close> when a triangle was skipped. (With \<open>nVertices = 0\<close> the
  source leaves every block as allocated; what lies beyond the counts is not part of the
  mesh, and the model keeps the prefix that the counts delimit.)
\<close>

definition GenGLData_trim :: "GLfloat \<Rightarrow> Uint16 \<Rightarrow> GenState \<Rightarrow> GenState" where
  "GenGLData_trim junkf junki s =
     (let s' = s\<lparr> vertCoords := c_realloc (3 * unat (nVertices s)) (vertCoords s) junkf,
                   texCoords := c_realloc (2 * unat (nVertices s)) (texCoords s) junkf \<rparr>
      in if skippedTris s
         then s'\<lparr> triFaces := map (\<lambda>i. c_realloc (unat (3 * mapTriNums s ! i)) (triFaces s ! i) junki)
                                  [0..<unat (nMaps s)] \<rparr>
         else s')"

text \<open>
  \<open>GenGLData\<close>. A null pointer argument is \<open>None\<close>, an array is the function from index to
  content, and the result \<open>None\<close> is \<open>NULL\<close>.
\<close>

definition GenGLData ::
  "GLfloat \<Rightarrow> Uint16 \<Rightarrow> Uint32 \<Rightarrow> (nat \<Rightarrow> GLfloat) option \<Rightarrow> (nat \<Rightarrow> Uint16) option \<Rightarrow>
   (nat \<Rightarrow> GLfloat) option \<Rightarrow> Uint16 \<Rightarrow> (nat \<Rightarrow> Uint8 list) option \<Rightarrow> GLData option" where
  "GenGLData junkf junki nTri triVerts texIndices triTexCoords nm texMapNames =
     (if nTri = 0 \<or> triVerts = None \<or> texIndices = None \<or> triTexCoords = None \<or> nm = 0 \<or>
         texMapNames = None
      then None
      else
        (let tris = map word_of_nat [0..<unat nTri] in
         case GenGLData_count (the texIndices) nm tris (replicate (unat nm) 0) of
           None \<Rightarrow> None
         | Some cnt \<Rightarrow>
             Some (GLData.truncate (GenGLData_trim junkf junki
               (fold (GenGLData_triangle (the triVerts) (the texIndices) (the triTexCoords)) tris
                  (GenGLData_init junkf junki nTri nm (the texMapNames) cnt))))))"

subsection \<open>SaveGLData and LoadGLData\<close>

text \<open>\<open>SaveGLData\<close>: the bytes written to \<open>outFile\<close>; nothing for a null mesh.\<close>

definition SaveGLData :: "GLData option \<Rightarrow> Uint8 list" where
  "SaveGLData glData =
     (case glData of None \<Rightarrow> []
      | Some g \<Rightarrow>
          (GLD_FILE_MAGIC @ [0]) @ [GLD_VER] @
          le16 (nMaps g) @
          concat (map (\<lambda>i. c_str (mapNames g ! i) @ [0]) [0..<unat (nMaps g)]) @
          concat (map le32 (take (unat (nMaps g)) (mapTriNums g))) @
          le16 (nVertices g) @
          concat (map le32 (take (3 * unat (nVertices g)) (vertCoords g))) @
          concat (map le32 (take (2 * unat (nVertices g)) (texCoords g))) @
          le32 (minX g) @ le32 (maxX g) @ le32 (minY g) @ le32 (maxY g) @ le32 (minZ g) @ le32 (maxZ g) @
          le32 (numTri g) @
          concat (map (\<lambda>i. concat (map le16 (take (unat (3 * mapTriNums g ! i)) (triFaces g ! i))))
                   [0..<unat (nMaps g)]))"

text \<open>The index arrays, one per texture, each of \<open>3 * mapTriNums[i]\<close> items.\<close>

primrec rd_faces :: "Uint32 list \<Rightarrow> (Uint16 list list) reader" where
  "rd_faces [] bs = Some ([], bs)"
| "rd_faces (n # ns) bs =
     (case rd_array (unat (3 * n)) rd_u16 bs of None \<Rightarrow> None
      | Some (f, bs') \<Rightarrow> (case rd_faces ns bs' of None \<Rightarrow> None | Some (fs, bs'') \<Rightarrow> Some (f # fs, bs'')))"

definition LoadGLData_body :: "GLData reader" where
  "LoadGLData_body bs0 = do {
     (nm, bs1) \<leftarrow> rd_u16 bs0;
     (names, bs2) \<leftarrow> rd_array (unat nm) rd_name bs1;
     (nums, bs3) \<leftarrow> rd_array (unat nm) rd_u32 bs2;
     (nv, bs4) \<leftarrow> rd_u16 bs3;
     (vc, bs5) \<leftarrow> rd_array (3 * unat nv) rd_u32 bs4;
     (tc, bs6) \<leftarrow> rd_array (2 * unat nv) rd_u32 bs5;
     (x0, bs7) \<leftarrow> rd_u32 bs6;
     (x1, bs8) \<leftarrow> rd_u32 bs7;
     (y0, bs9) \<leftarrow> rd_u32 bs8;
     (y1, bs10) \<leftarrow> rd_u32 bs9;
     (z0, bs11) \<leftarrow> rd_u32 bs10;
     (z1, bs12) \<leftarrow> rd_u32 bs11;
     (nt, bs13) \<leftarrow> rd_u32 bs12;
     (faces, bs14) \<leftarrow> rd_faces nums bs13;
     Some (\<lparr> nMaps = nm, mapNames = names, mapTriNums = nums, nVertices = nv,
             vertCoords = vc, texCoords = tc,
             minX = x0, maxX = x1, minY = y0, maxY = y1, minZ = z0, maxZ = z1,
             numTri = nt, triFaces = faces \<rparr>, bs14)
   }"

text \<open>
  \<open>LoadGLData\<close>. The signature is compared with \<open>strcmp\<close>, which looks at the four bytes
  up to the NUL of the magic. When the stream has fewer than five bytes no version byte is
  read, \<open>glDataVer\<close> keeps its initial 0 and the test fails whatever \<open>savedSig\<close> holds.
\<close>

definition LoadGLData :: "Uint8 list option \<Rightarrow> GLData load_result" where
  "LoadGLData inFile =
     (case inFile of None \<Rightarrow> LoadNull
      | Some bs \<Rightarrow>
          if 5 \<le> length bs \<and> take 4 bs = GLD_FILE_MAGIC @ [0] \<and> bs ! 4 = GLD_VER
          then (case LoadGLData_body (drop 5 bs) of None \<Rightarrow> LoadStop ShortRead | Some (g, rest) \<Rightarrow> Loaded g)
          else LoadNull)"

section \<open>Predicates of the specification\<close>

text \<open>
  A mesh whose arrays have the sizes its counts announce, and whose names are C strings of
  at most 255 bytes.
\<close>

definition wf_GLData :: "GLData \<Rightarrow> bool" where
  "wf_GLData g \<longleftrightarrow>
     length (mapNames g) = unat (nMaps g) \<and>
     (\<forall>n \<in> set (mapNames g). 0 \<notin> set n \<and> length n \<le> 255) \<and>
     length (mapTriNums g) = unat (nMaps g) \<and>
     length (vertCoords g) = 3 * unat (nVertices g) \<and>
     length (texCoords g) = 2 * unat (nVertices g) \<and>
     length (triFaces g) = unat (nMaps g) \<and>
     (\<forall>i < unat (nMaps g). length (triFaces g ! i) = unat (3 * mapTriNums g ! i))"

text \<open>
  Two vertex definitions, each a position and a texture coordinate, differ in at least one
  of the five coordinates by more than its tolerance.
\<close>

definition coords_differ :: "real \<Rightarrow> real \<Rightarrow> GLfloat list \<times> GLfloat list \<Rightarrow> GLfloat list \<times> GLfloat list \<Rightarrow> bool" where
  "coords_differ ev et a b \<longleftrightarrow>
     \<bar>fval (fst a ! 0) - fval (fst b ! 0)\<bar> > ev \<or>
     \<bar>fval (fst a ! 1) - fval (fst b ! 1)\<bar> > ev \<or>
     \<bar>fval (fst a ! 2) - fval (fst b ! 2)\<bar> > ev \<or>
     \<bar>fval (snd a ! 0) - fval (snd b ! 0)\<bar> > et \<or>
     \<bar>fval (snd a ! 1) - fval (snd b ! 1)\<bar> > et"

text \<open>Entry \<open>k\<close> of the packed tables \<open>vertCoords\<close> and \<open>texCoords\<close> of a mesh.\<close>

definition gld_entry :: "GLfloat list \<Rightarrow> GLfloat list \<Rightarrow> nat \<Rightarrow> GLfloat list \<times> GLfloat list" where
  "gld_entry vc tc k = ([vc ! (3 * k + 0), vc ! (3 * k + 1), vc ! (3 * k + 2)], [tc ! (2 * k + 0), tc ! (2 * k + 1)])"

definition gld_separated :: "GLfloat list \<Rightarrow> GLfloat list \<Rightarrow> nat \<Rightarrow> bool" where
  "gld_separated vc tc n \<longleftrightarrow>
     (\<forall>i < n. \<forall>j < n. i \<noteq> j \<longrightarrow>
        coords_differ GLD_VERT_ORD_EPSILON GLD_TEX_ORD_EPSILON (gld_entry vc tc i) (gld_entry vc tc j))"


section \<open>coldet.c: the ray/mesh intersector\<close>

text \<open>
  The macros \<open>SUB\<close> and \<open>CROSS\<close> store into \<open>GLfloat\<close> arrays, \<open>DOT\<close> is an
  expression.
\<close>

definition SUB :: "(real \<Rightarrow> GLfloat) \<Rightarrow> GLfloat list \<Rightarrow> GLfloat list \<Rightarrow> GLfloat list" where
  "SUB rnd v1 v2 = [rnd (fval (v1 ! 0) - fval (v2 ! 0)), rnd (fval (v1 ! 1) - fval (v2 ! 1)),
     rnd (fval (v1 ! 2) - fval (v2 ! 2))]"

definition CROSS :: "(real \<Rightarrow> GLfloat) \<Rightarrow> GLfloat list \<Rightarrow> GLfloat list \<Rightarrow> GLfloat list" where
  "CROSS rnd v1 v2 = [rnd (fval (v1 ! 1) * fval (v2 ! 2) - fval (v1 ! 2) * fval (v2 ! 1)),
     rnd (fval (v1 ! 2) * fval (v2 ! 0) - fval (v1 ! 0) * fval (v2 ! 2)),
     rnd (fval (v1 ! 0) * fval (v2 ! 1) - fval (v1 ! 1) * fval (v2 ! 0))]"

definition DOT :: "GLfloat list \<Rightarrow> GLfloat list \<Rightarrow> real" where
  "DOT v1 v2 = fval (v1 ! 0) * fval (v2 ! 0) + fval (v1 ! 1) * fval (v2 ! 1) + fval (v1 ! 2) * fval (v2 ! 2)"

text \<open>
  \<open>intersectsFace\<close>: the result and the contents of \<open>*t\<close>, \<open>*u\<close>, \<open>*v\<close> afterwards, given
  their contents \<open>tuv\<close> before.
\<close>

definition intersectsFace ::
  "(real \<Rightarrow> GLfloat) \<Rightarrow> GLfloat list \<Rightarrow> GLfloat list \<Rightarrow> GLfloat list \<Rightarrow> GLfloat list \<Rightarrow> GLfloat list \<Rightarrow>
   GLfloat \<times> GLfloat \<times> GLfloat \<Rightarrow> bool \<times> GLfloat \<times> GLfloat \<times> GLfloat" where
  "intersectsFace rnd orig dir vert0 vert1 vert2 tuv =
     (let (t, u, v) = tuv;
          edge1 = SUB rnd vert1 vert0;
          edge2 = SUB rnd vert2 vert0;
          pVec = CROSS rnd dir edge2;
          det = rnd (DOT edge1 pVec)
      in
      if fval det > - FLT_EPSILON \<and> fval det < FLT_EPSILON then (False, t, u, v)
      else
        (let invDet = rnd (1 / fval det);
             tVec = SUB rnd orig vert0;
             u' = rnd (DOT tVec pVec * fval invDet)
         in
         if fval u' < 0 \<or> fval u' > 1 then (False, t, u', v)
         else
           (let qVec = CROSS rnd tVec edge1;
                v' = rnd (DOT dir qVec * fval invDet)
            in
            if fval v' < 0 \<or> fval u' + fval v' > 1 then (False, t, u', v')
            else (True, rnd (DOT edge2 qVec * fval invDet), u', v'))))"

text \<open>
  The body of the two loops of \<open>hasCollision\<close> for triangle \<open>j\<close> of texture \<open>i\<close>. The state
  is \<open>retVal\<close>, \<open>*dist\<close> and the number of triangles tested so far (a counter of the model,
  not of the source).
\<close>

definition hasCollision_face ::
  "(real \<Rightarrow> GLfloat) \<Rightarrow> GLData \<Rightarrow> GLfloat list \<Rightarrow> GLfloat list \<Rightarrow> real \<Rightarrow> nat \<Rightarrow> nat \<Rightarrow>
   bool \<times> GLfloat \<times> nat \<Rightarrow> bool \<times> GLfloat \<times> nat" where
  "hasCollision_face rnd model fromPt dir dirMag i j st =
     (let (retVal, dist, tested) = st;
          vInd = (\<lambda>c::Uint32. triFaces model ! i ! unat (3 * word_of_nat j + c));
          vert = (\<lambda>c. [vertCoords model ! (3 * unat (vInd c) + 0), vertCoords model ! (3 * unat (vInd c) + 1),
                       vertCoords model ! (3 * unat (vInd c) + 2)]);
          (hit, tmpT, tmpU, tmpV) =
             intersectsFace rnd fromPt dir (vert 0) (vert 1) (vert 2) (FLT_MAX, FLT_MAX, FLT_MAX)
      in
      if hit \<and> fval tmpT \<ge> 0 \<and> fval tmpT < fval dist \<and> fval tmpT \<le> dirMag
      then (True, tmpT, tested + 1)
      else (retVal, dist, tested + 1))"

text \<open>
  \<open>hasCollision\<close>: the result, the content of \<open>*dist\<close> at return and the number of
  triangles tested.
\<close>

definition hasCollision ::
  "(real \<Rightarrow> GLfloat) \<Rightarrow> GLData \<Rightarrow> GLfloat list \<Rightarrow> GLfloat list \<Rightarrow> bool \<times> GLfloat \<times> nat" where
  "hasCollision rnd model fromPt toPt =
     (let dir = [rnd (fval (toPt ! 0) - fval (fromPt ! 0)), rnd (fval (toPt ! 1) - fval (fromPt ! 1)),
                 rnd (fval (toPt ! 2) - fval (fromPt ! 2))];
          dirMag = sqrt (fval (dir ! 0) * fval (dir ! 0) + fval (dir ! 1) * fval (dir ! 1) +
                         fval (dir ! 2) * fval (dir ! 2))
      in
      if dirMag > 0 then
        (let dir' = [rnd (fval (dir ! 0) / dirMag), rnd (fval (dir ! 1) / dirMag), rnd (fval (dir ! 2) / dirMag)]
         in fold (\<lambda>i. fold (hasCollision_face rnd model fromPt dir' dirMag i)
                           [0..<unat (mapTriNums model ! i)])
              [0..<unat (nMaps model)] (False, FLT_MAX, 0))
      else (True, FLT_MAX, 0))"


section \<open>bsp.h, bspc.c: the BSP tree compiler\<close>

text \<open>The model is that of a build without \<open>BSPC_DEBUG\<close>.\<close>

definition BSP_FILE_MAGIC :: "Uint8 list" where
  "BSP_FILE_MAGIC = [0x42, 0x53, 0x50]"

definition BSP_DATA_VER :: Uint8 where
  "BSP_DATA_VER = 0x10"

definition BSP_VERT_ORD_EPSILON :: real where
  "BSP_VERT_ORD_EPSILON = 0.0011276372445"

definition BSP_TEX_ORD_EPSILON :: real where
  "BSP_TEX_ORD_EPSILON = 0.00390625"

definition DEFS_BLK_SIZE :: nat where
  "DEFS_BLK_SIZE = 200"

definition PLANE_THICKNESS :: real where
  "PLANE_THICKNESS = 0.0005"

definition UINT_MAX :: Uint32 where
  "UINT_MAX = 0xFFFFFFFF"

datatype PointType = BELOW_PLANE | ON_PLANE | ABOVE_PLANE

record BSPPlane =
  A :: GLdouble
  B :: GLdouble
  C :: GLdouble
  D :: GLdouble

datatype TriType = IN_BACK | SPANNING | COINCIDENT | IN_FRONT

text \<open>
  A triangle of the working lists. The links \<open>prev\<close> and \<open>next\<close> are the list that holds
  the triangle; a node is known by its place in the list.
\<close>

record BSPTriNode =
  V :: "GLfloat list list"
  plane :: BSPPlane
  tIndex :: Uint16
  T :: "GLfloat list list"

definition row3 :: "GLfloat list \<Rightarrow> GLfloat list" where
  "row3 xs = [xs ! 0, xs ! 1, xs ! 2]"

definition row2 :: "GLfloat list \<Rightarrow> GLfloat list" where
  "row2 xs = [xs ! 0, xs ! 1]"

subsection \<open>The geometry kernel\<close>

text \<open>\<open>GetPlaneForTri\<close>: \<open>None\<close> is the result -1, and then the plane is not written.\<close>

definition GetPlaneForTri :: "GLfloat list list \<Rightarrow> BSPPlane option" where
  "GetPlaneForTri Vs =
     (let AB = [fval (Vs ! 1 ! 0) - fval (Vs ! 0 ! 0), fval (Vs ! 1 ! 1) - fval (Vs ! 0 ! 1),
                fval (Vs ! 1 ! 2) - fval (Vs ! 0 ! 2)];
          AC = [fval (Vs ! 2 ! 0) - fval (Vs ! 0 ! 0), fval (Vs ! 2 ! 1) - fval (Vs ! 0 ! 1),
                fval (Vs ! 2 ! 2) - fval (Vs ! 0 ! 2)];
          Normal = [AB ! 1 * AC ! 2 - AB ! 2 * AC ! 1, AB ! 2 * AC ! 0 - AB ! 0 * AC ! 2,
                    AB ! 0 * AC ! 1 - AB ! 1 * AC ! 0];
          normMag = sqrt (Normal ! 0 * Normal ! 0 + Normal ! 1 * Normal ! 1 + Normal ! 2 * Normal ! 2)
      in
      if normMag > DBL_EPSILON
      then Some \<lparr> A = Normal ! 0 / normMag, B = Normal ! 1 / normMag, C = Normal ! 2 / normMag,
                  D = 0 - (Normal ! 0 / normMag) * fval (Vs ! 0 ! 0) - (Normal ! 1 / normMag) * fval (Vs ! 0 ! 1)
                        - (Normal ! 2 / normMag) * fval (Vs ! 0 ! 2) \<rparr>
      else None)"

definition ClassifyPoint :: "GLfloat list \<Rightarrow> BSPPlane \<Rightarrow> PointType" where
  "ClassifyPoint aPt p =
     (let vDist = A p * fval (aPt ! 0) + B p * fval (aPt ! 1) + C p * fval (aPt ! 2) + D p in
      if \<bar>vDist\<bar> \<le> PLANE_THICKNESS then ON_PLANE
      else if vDist > PLANE_THICKNESS then ABOVE_PLANE
      else BELOW_PLANE)"

text \<open>The counters \<open>vOnPlane\<close>, \<open>vAbove\<close>, \<open>vBelow\<close> of \<open>ClassifyTri\<close> after vertex \<open>i\<close>.\<close>

definition ClassifyTri_count :: "BSPTriNode \<Rightarrow> BSPPlane \<Rightarrow> nat \<times> nat \<times> nat \<Rightarrow> nat \<Rightarrow> nat \<times> nat \<times> nat" where
  "ClassifyTri_count aTri p cnt i =
     (let (vOnPlane, vAbove, vBelow) = cnt in
      case ClassifyPoint (V aTri ! i) p of
        ON_PLANE \<Rightarrow> (vOnPlane + 1, vAbove, vBelow)
      | ABOVE_PLANE \<Rightarrow> (vOnPlane, vAbove + 1, vBelow)
      | BELOW_PLANE \<Rightarrow> (vOnPlane, vAbove, vBelow + 1))"

definition ClassifyTri :: "BSPTriNode \<Rightarrow> BSPPlane \<Rightarrow> TriType" where
  "ClassifyTri aTri p =
     (let (vOnPlane, vAbove, vBelow) = foldl (ClassifyTri_count aTri p) (0, 0, 0) [0, 1, 2] in
      if vOnPlane = 3 then COINCIDENT
      else if vAbove + vOnPlane = 3 then IN_FRONT
      else if vBelow + vOnPlane = 3 then IN_BACK
      else SPANNING)"

text \<open>
  \<open>IntersectPlaneLineSeg\<close>: the result \<open>t\<close> and the content of \<open>res\<close> afterwards. When
  the denominator is within the tolerance, \<open>t\<close> is \<open>DBL_MAX\<close> and \<open>res\<close> is left as it was.
\<close>

definition IntersectPlaneLineSeg ::
  "(real \<Rightarrow> GLfloat) \<Rightarrow> BSPPlane \<Rightarrow> GLfloat list \<Rightarrow> GLfloat list \<Rightarrow> GLfloat list \<Rightarrow> GLdouble \<times> GLfloat list" where
  "IntersectPlaneLineSeg rnd p v0 v1 res =
     (let lSeg = [fval (v1 ! 0) - fval (v0 ! 0), fval (v1 ! 1) - fval (v0 ! 1), fval (v1 ! 2) - fval (v0 ! 2)];
          denom = A p * lSeg ! 0 + B p * lSeg ! 1 + C p * lSeg ! 2;
          epsilon = \<bar>((A p + fval (v1 ! 2)) * DBL_EPSILON) / 2\<bar>
      in
      if \<bar>denom\<bar> > epsilon
      then (let numer = (A p * fval (v0 ! 0) + B p * fval (v0 ! 1) + C p * fval (v0 ! 2) + D p) * (- 1);
                t = numer / denom
            in (t, [rnd (fval (v0 ! 0) + t * lSeg ! 0), rnd (fval (v0 ! 1) + t * lSeg ! 1),
                    rnd (fval (v0 ! 2) + t * lSeg ! 2)]))
      else (DBL_MAX, res))"

subsection \<open>Working lists\<close>

definition AddTriToList :: "BSPTriNode list \<Rightarrow> BSPTriNode \<Rightarrow> BSPTriNode list" where
  "AddTriToList list node = node # list"

text \<open>\<open>RemoveTriFromList\<close>, for the node at place \<open>k\<close> of the list; \<open>None\<close> is a null node.\<close>

definition RemoveTriFromList :: "BSPTriNode list \<Rightarrow> nat option \<Rightarrow> BSPTriNode list" where
  "RemoveTriFromList listHead node =
     (case node of None \<Rightarrow> listHead
      | Some k \<Rightarrow> if listHead = [] then listHead else take k listHead @ drop (Suc k) listHead)"

subsection \<open>SelectNextRoot\<close>

text \<open>
  The inner loop for candidate \<open>currNode\<close>: the counters \<open>splits\<close>, \<open>inFront\<close>, \<open>inBack\<close>,
  \<open>onPlane\<close> (each an \<open>unsigned int\<close>) after the test of \<open>testNode\<close>.
\<close>

definition SelectNextRoot_count ::
  "BSPTriNode list \<Rightarrow> nat \<Rightarrow> Uint32 \<times> Uint32 \<times> Uint32 \<times> Uint32 \<Rightarrow> nat \<Rightarrow> Uint32 \<times> Uint32 \<times> Uint32 \<times> Uint32" where
  "SelectNextRoot_count triList currNode cnt testNode =
     (let (splits, inFront, inBack, onPlane) = cnt;
          triType = ClassifyTri (triList ! testNode) (plane (triList ! currNode))
      in
      if testNode \<noteq> currNode then
        (case triType of
           SPANNING \<Rightarrow> (splits + 1, inFront, inBack, onPlane)
         | IN_FRONT \<Rightarrow> (splits, inFront + 1, inBack, onPlane)
         | IN_BACK \<Rightarrow> (splits, inFront, inBack + 1, onPlane)
         | COINCIDENT \<Rightarrow> (splits, inFront, inBack, onPlane + 1))
      else cnt)"

text \<open>
  The score of a candidate: \<open>splits + (unsigned int)(abs(inFront - inBack))\<close>. The
  difference is taken in \<open>unsigned int\<close> and read as an \<open>int\<close> by \<open>abs\<close>.
\<close>

definition SelectNextRoot_score :: "BSPTriNode list \<Rightarrow> nat \<Rightarrow> Uint32" where
  "SelectNextRoot_score triList currNode =
     (let (splits, inFront, inBack, onPlane) =
            foldl (SelectNextRoot_count triList currNode) (0, 0, 0, 0) [0..<length triList]
      in splits + word_of_int \<bar>sint (inFront - inBack)\<bar>)"

text \<open>
  The outer loop over the candidates that are left, with \<open>minScore\<close>, \<open>bestNode\<close> and the
  number of candidates scored so far (a counter of the model).
\<close>

fun SelectNextRoot_scan ::
  "BSPTriNode list \<Rightarrow> nat list \<Rightarrow> Uint32 \<Rightarrow> nat option \<Rightarrow> nat \<Rightarrow> nat option \<times> nat" where
  "SelectNextRoot_scan triList [] minScore bestNode scored = (bestNode, scored)"
| "SelectNextRoot_scan triList (currNode # rest) minScore bestNode scored =
     (let score = SelectNextRoot_score triList currNode;
          (minScore', bestNode') = (if score < minScore then (score, Some currNode) else (minScore, bestNode))
      in
      if score = 0 then (bestNode', scored + 1)
      else SelectNextRoot_scan triList rest minScore' bestNode' (scored + 1))"

text \<open>
  \<open>SelectNextRoot\<close>: the node stored in \<open>*rootPtr\<close>, the list returned, and the number of
  candidates scored.
\<close>

definition SelectNextRoot :: "BSPTriNode list \<Rightarrow> BSPTriNode option \<times> BSPTriNode list \<times> nat" where
  "SelectNextRoot triList =
     (let (bestNode, scored) = SelectNextRoot_scan triList [0..<length triList] UINT_MAX None 0
      in (map_option (\<lambda>k. triList ! k) bestNode, RemoveTriFromList triList bestNode, scored))"

subsection \<open>SplitTri\<close>

text \<open>The rings of vertices in front of and behind the plane, arrays of four slots.\<close>

record SplitRings =
  numFrontVerts :: nat
  frontVerts :: "GLfloat list list"
  frontTexCoords :: "GLfloat list list"
  numBackVerts :: nat
  backVerts :: "GLfloat list list"
  backTexCoords :: "GLfloat list list"

text \<open>Body of the loop over the vertices: vertex \<open>i\<close>, then the edge to the next one.\<close>

definition SplitTri_vertex ::
  "(real \<Rightarrow> GLfloat) \<Rightarrow> BSPTriNode \<Rightarrow> BSPPlane \<Rightarrow> PointType list \<Rightarrow> SplitRings \<Rightarrow> nat \<Rightarrow> SplitRings" where
  "SplitTri_vertex rnd aTri partnPlane vertTypes r i =
     (let toFront = (\<lambda>r. r\<lparr> frontVerts := (frontVerts r)[numFrontVerts r := row3 (V aTri ! i)],
                            frontTexCoords := (frontTexCoords r)[numFrontVerts r := row2 (T aTri ! i)],
                            numFrontVerts := numFrontVerts r + 1 \<rparr>);
          toBack = (\<lambda>r. r\<lparr> backVerts := (backVerts r)[numBackVerts r := row3 (V aTri ! i)],
                           backTexCoords := (backTexCoords r)[numBackVerts r := row2 (T aTri ! i)],
                           numBackVerts := numBackVerts r + 1 \<rparr>);
          r1 = (case vertTypes ! i of
                  ABOVE_PLANE \<Rightarrow> toFront r
                | BELOW_PLANE \<Rightarrow> toBack r
                | ON_PLANE \<Rightarrow> toBack (toFront r));
          next1 = (i + 1) mod 3
      in
      if (vertTypes ! i = ABOVE_PLANE \<and> vertTypes ! next1 = BELOW_PLANE) \<or>
         (vertTypes ! i = BELOW_PLANE \<and> vertTypes ! next1 = ABOVE_PLANE)
      then
        (let (t, res) = IntersectPlaneLineSeg rnd partnPlane (V aTri ! i) (V aTri ! next1)
                          (backVerts r1 ! numBackVerts r1);
             tcDiff = [fval (T aTri ! next1 ! 0) - fval (T aTri ! i ! 0),
                       fval (T aTri ! next1 ! 1) - fval (T aTri ! i ! 1)];
             tc = [rnd (fval (T aTri ! i ! 0) + t * tcDiff ! 0), rnd (fval (T aTri ! i ! 1) + t * tcDiff ! 1)]
         in r1\<lparr> backVerts := (backVerts r1)[numBackVerts r1 := res],
                backTexCoords := (backTexCoords r1)[numBackVerts r1 := tc],
                frontVerts := (frontVerts r1)[numFrontVerts r1 := row3 res],
                frontTexCoords := (frontTexCoords r1)[numFrontVerts r1 := tc],
                numBackVerts := numBackVerts r1 + 1,
                numFrontVerts := numFrontVerts r1 + 1 \<rparr>)
      else r1)"

text \<open>The rings after the walk over the three edges; \<open>junk\<close> fills the fresh arrays.\<close>

definition SplitTri_rings :: "(real \<Rightarrow> GLfloat) \<Rightarrow> GLfloat \<Rightarrow> BSPTriNode \<Rightarrow> BSPPlane \<Rightarrow> SplitRings" where
  "SplitTri_rings rnd junk aTri partnPlane =
     (let vertTypes = [ClassifyPoint (V aTri ! 0) partnPlane, ClassifyPoint (V aTri ! 1) partnPlane,
                       ClassifyPoint (V aTri ! 2) partnPlane]
      in foldl (SplitTri_vertex rnd aTri partnPlane vertTypes)
           \<lparr> numFrontVerts = 0, frontVerts = replicate 4 [junk, junk, junk],
             frontTexCoords = replicate 4 [junk, junk],
             numBackVerts = 0, backVerts = replicate 4 [junk, junk, junk],
             backTexCoords = replicate 4 [junk, junk] \<rparr>
           [0, 1, 2])"

text \<open>
  A new triangle from the ring slots \<open>idx\<close>; \<open>None\<close> when it is degenerate and discarded.
\<close>

definition SplitTri_make :: "BSPTriNode \<Rightarrow> GLfloat list list \<Rightarrow> GLfloat list list \<Rightarrow> nat list \<Rightarrow> BSPTriNode option" where
  "SplitTri_make aTri verts texs idx =
     (let Vs = map (\<lambda>k. row3 (verts ! k)) idx;
          Ts = map (\<lambda>k. row2 (texs ! k)) idx
      in case GetPlaneForTri Vs of
           None \<Rightarrow> None
         | Some pl \<Rightarrow> Some \<lparr> V = Vs, plane = pl, tIndex = tIndex aTri, T = Ts \<rparr>)"

text \<open>The triangles of one side: slots 0, 1, 2, and with four vertices also 2, 3, 0.\<close>

definition SplitTri_side :: "BSPTriNode \<Rightarrow> nat \<Rightarrow> GLfloat list list \<Rightarrow> GLfloat list list \<Rightarrow> BSPTriNode list" where
  "SplitTri_side aTri n verts texs =
     (let lst = (case SplitTri_make aTri verts texs [0, 1, 2] of None \<Rightarrow> [] | Some tri \<Rightarrow> [tri])
      in if n = 4
         then (case SplitTri_make aTri verts texs [2, 3, 0] of
                 None \<Rightarrow> lst
               | Some tmpTri \<Rightarrow> AddTriToList lst tmpTri)
         else lst)"

text \<open>The two error branches of \<open>SplitTri\<close>, each an \<open>exit(EXIT_FAILURE)\<close>.\<close>

datatype split_error = NonSpanning | TooManyVertices

definition SplitTri ::
  "(real \<Rightarrow> GLfloat) \<Rightarrow> GLfloat \<Rightarrow> BSPTriNode \<Rightarrow> BSPPlane \<Rightarrow> split_error + BSPTriNode list \<times> BSPTriNode list" where
  "SplitTri rnd junk aTri partnPlane =
     (let r = SplitTri_rings rnd junk aTri partnPlane in
      if numBackVerts r < 3 \<or> numFrontVerts r < 3 then Inl NonSpanning
      else if numBackVerts r > 4 \<or> numFrontVerts r > 4 then Inl TooManyVertices
      else Inr (SplitTri_side aTri (numFrontVerts r) (frontVerts r) (frontTexCoords r),
                SplitTri_side aTri (numBackVerts r) (backVerts r) (backTexCoords r)))"


subsection \<open>The compiled tree and its file\<close>

text \<open>
  A face, a node and the container of \<open>bsp.h\<close>. The fields of \<open>BSPTreeData\<close> that the mesh
  has too carry the suffix \<open>_bsp\<close>, and \<open>numTri\<close>, \<open>back\<close> and \<open>front\<close> of a node
  carry the suffix \<open>_node\<close>. A null child is \<open>None\<close>.
\<close>

record BSPTriFace =
  texIndex :: Uint16
  vIndices :: "Uint16 list"

datatype BSPTree =
  BSPTree (numTri_node: Uint16) (triDefs: "BSPTriFace list") (partPlane: BSPPlane)
    (back_node: "BSPTree option") (front_node: "BSPTree option")

record BSPTreeData =
  nMaps_bsp :: Uint16
  mapNames_bsp :: "Uint8 list list"
  mapTriNums_bsp :: "Uint32 list"
  nVertices_bsp :: Uint16
  vertCoords_bsp :: "GLfloat list"
  texCoords_bsp :: "GLfloat list"
  minX_bsp :: GLfloat
  maxX_bsp :: GLfloat
  minY_bsp :: GLfloat
  maxY_bsp :: GLfloat
  minZ_bsp :: GLfloat
  maxZ_bsp :: GLfloat
  maxDepth :: Uint16
  numNodes :: Uint16
  numTri_bsp :: Uint32
  bspTree :: "BSPTree option"





text \<open>
  \<open>ReadBSPTree\<close>. First the fields of the node itself: \<open>numTri\<close>, the faces, the plane and
  \<open>cFlag\<close>. The plane is read when \<open>numTri\<close> is 0 (\<open>dec\<close> reads a double from its eight
  bytes) and is otherwise that of the first face, whose vertices are looked up in
  \<open>bspData->vertCoords\<close>, here \<open>vc\<close>.
\<close>

definition rd_face :: "BSPTriFace reader" where
  "rd_face bs0 = do {
     (t, bs1) \<leftarrow> rd_u16 bs0;
     (v, bs2) \<leftarrow> rd_array 3 rd_u16 bs1;
     Some (\<lparr> texIndex = t, vIndices = v \<rparr>, bs2)
   }"

definition rd_plane :: "(Uint8 list \<Rightarrow> GLdouble) \<Rightarrow> BSPPlane reader" where
  "rd_plane dec bs0 = do {
     (b, bs1) \<leftarrow> rd_bytes 32 bs0;
     Some (\<lparr> A = dec (take 8 b), B = dec (take 8 (drop 8 b)), C = dec (take 8 (drop 16 b)),
             D = dec (take 8 (drop 24 b)) \<rparr>, bs1)
   }"

text \<open>
  The array \<open>triVerts\<close> of the first face; \<open>None\<close> when an index is not in \<open>vc\<close>.
\<close>

definition ReadBSPTree_triVerts :: "GLfloat list \<Rightarrow> BSPTriFace \<Rightarrow> GLfloat list list option" where
  "ReadBSPTree_triVerts vc triFace =
     (if \<forall>k \<in> {0, 1, 2}. 3 * unat (vIndices triFace ! k) + 2 < length vc
      then Some (map (\<lambda>k. let vIndex = 3 * unat (vIndices triFace ! k)
                          in [vc ! (vIndex + 0), vc ! (vIndex + 1), vc ! (vIndex + 2)]) [0, 1, 2])
      else None)"

definition ReadBSPTree_plane ::
  "(Uint8 list \<Rightarrow> GLdouble) \<Rightarrow> GLfloat list \<Rightarrow> Uint16 \<Rightarrow> BSPTriFace list \<Rightarrow> Uint8 list \<Rightarrow> stop + BSPPlane \<times> Uint8 list" where
  "ReadBSPTree_plane dec vc n tris bs =
     (if n = 0 then (case rd_plane dec bs of None \<Rightarrow> Inl ShortRead | Some r \<Rightarrow> Inr r)
      else (case ReadBSPTree_triVerts vc (tris ! 0) of
              None \<Rightarrow> Inl OutsideRead
            | Some triVerts \<Rightarrow>
                (case GetPlaneForTri triVerts of
                   None \<Rightarrow> Inl (Exit DegenerateTriangle)
                 | Some p \<Rightarrow> Inr (p, bs))))"

definition ReadBSPTree_node ::
  "(Uint8 list \<Rightarrow> GLdouble) \<Rightarrow> GLfloat list \<Rightarrow> Uint8 list \<Rightarrow>
     stop + Uint16 \<times> BSPTriFace list \<times> BSPPlane \<times> Uint8 \<times> Uint8 list" where
  "ReadBSPTree_node dec vc bs0 =
     (case rd_u16 bs0 of None \<Rightarrow> Inl ShortRead
      | Some (n, bs1) \<Rightarrow>
     (case rd_array (unat n) rd_face bs1 of None \<Rightarrow> Inl ShortRead
      | Some (tris, bs2) \<Rightarrow>
     (case ReadBSPTree_plane dec vc n tris bs2 of Inl e \<Rightarrow> Inl e
      | Inr (p, bs3) \<Rightarrow>
     (case rd_u8 bs3 of None \<Rightarrow> Inl ShortRead
      | Some (cFlag, bs4) \<Rightarrow> Inr (n, tris, p, cFlag, bs4)))))"

text \<open>
  The \<open>switch\<close> on \<open>cFlag\<close>: the pair \<open>(hasBackTree, hasFrontTree)\<close>, or the exit of the
  \<open>default\<close> case.
\<close>

definition ReadBSPTree_switch :: "Uint8 \<Rightarrow> stop + bool \<times> bool" where
  "ReadBSPTree_switch cFlag =
     (if cFlag = 0x00 then Inr (False, False)
      else if cFlag = 0xB0 then Inr (True, False)
      else if cFlag = 0x0F then Inr (False, True)
      else if cFlag = 0xBF then Inr (True, True)
      else Inl (Exit (CorruptFile cFlag)))"

text \<open>
  The recursion of \<open>ReadBSPTree\<close>, the back tree before the front tree. The first
  argument bounds the depth of the recursion.
\<close>

fun ReadBSPTree :: "nat \<Rightarrow> (Uint8 list \<Rightarrow> GLdouble) \<Rightarrow> GLfloat list \<Rightarrow> Uint8 list \<Rightarrow> stop + BSPTree \<times> Uint8 list" where
  "ReadBSPTree 0 dec vc bs = Inl OutOfFuel"
| "ReadBSPTree (Suc fuel) dec vc bs =
     (case ReadBSPTree_node dec vc bs of Inl e \<Rightarrow> Inl e
      | Inr (n, tris, p, cFlag, bs1) \<Rightarrow>
     (case ReadBSPTree_switch cFlag of Inl e \<Rightarrow> Inl e
      | Inr (hasBackTree, hasFrontTree) \<Rightarrow>
     (case (if hasBackTree
            then (case ReadBSPTree fuel dec vc bs1 of Inl e \<Rightarrow> Inl e | Inr (t, r) \<Rightarrow> Inr (Some t, r))
            else Inr (None, bs1)) of Inl e \<Rightarrow> Inl e
      | Inr (bk, bs2) \<Rightarrow>
     (case (if hasFrontTree
            then (case ReadBSPTree fuel dec vc bs2 of Inl e \<Rightarrow> Inl e | Inr (t, r) \<Rightarrow> Inr (Some t, r))
            else Inr (None, bs2)) of Inl e \<Rightarrow> Inl e
      | Inr (fr, bs3) \<Rightarrow> Inr (BSPTree n tris p bk fr, bs3)))))"

text \<open>
  \<open>LoadBSPTreeData\<close>: the header is tested as in \<open>LoadGLData\<close>, then come the fields up
  to the tree. Every node takes at least three bytes, so a recursion as deep as the rest
  of the stream is long reads any tree.
\<close>

definition LoadBSPTreeData_fields :: "BSPTreeData reader" where
  "LoadBSPTreeData_fields bs0 = do {
     (nm, bs1) \<leftarrow> rd_u16 bs0;
     (names, bs2) \<leftarrow> rd_array (unat nm) rd_name bs1;
     (nums, bs3) \<leftarrow> rd_array (unat nm) rd_u32 bs2;
     (nv, bs4) \<leftarrow> rd_u16 bs3;
     (vc, bs5) \<leftarrow> rd_array (3 * unat nv) rd_u32 bs4;
     (tc, bs6) \<leftarrow> rd_array (2 * unat nv) rd_u32 bs5;
     (x0, bs7) \<leftarrow> rd_u32 bs6;
     (x1, bs8) \<leftarrow> rd_u32 bs7;
     (y0, bs9) \<leftarrow> rd_u32 bs8;
     (y1, bs10) \<leftarrow> rd_u32 bs9;
     (z0, bs11) \<leftarrow> rd_u32 bs10;
     (z1, bs12) \<leftarrow> rd_u32 bs11;
     (md, bs13) \<leftarrow> rd_u16 bs12;
     (nn, bs14) \<leftarrow> rd_u16 bs13;
     (nt, bs15) \<leftarrow> rd_u32 bs14;
     Some (\<lparr> nMaps_bsp = nm, mapNames_bsp = names, mapTriNums_bsp = nums, nVertices_bsp = nv,
             vertCoords_bsp = vc, texCoords_bsp = tc,
             minX_bsp = x0, maxX_bsp = x1, minY_bsp = y0, maxY_bsp = y1, minZ_bsp = z0, maxZ_bsp = z1,
             maxDepth = md, numNodes = nn, numTri_bsp = nt, bspTree = None \<rparr>, bs15)
   }"

definition LoadBSPTreeData :: "(Uint8 list \<Rightarrow> GLdouble) \<Rightarrow> Uint8 list option \<Rightarrow> BSPTreeData load_result" where
  "LoadBSPTreeData dec inFile =
     (case inFile of None \<Rightarrow> LoadNull
      | Some bs \<Rightarrow>
          if 5 \<le> length bs \<and> take 4 bs = BSP_FILE_MAGIC @ [0] \<and> bs ! 4 = BSP_DATA_VER
          then (case LoadBSPTreeData_fields (drop 5 bs) of None \<Rightarrow> LoadStop ShortRead
                | Some (d, bs1) \<Rightarrow>
                    (case ReadBSPTree (Suc (length bs1)) dec (vertCoords_bsp d) bs1 of
                       Inl e \<Rightarrow> LoadStop e
                     | Inr (t, bs2) \<Rightarrow> Loaded (d \<lparr> bspTree := Some t \<rparr>)))
          else LoadNull)"


section \<open>Sample inputs\<close>

text \<open>
  One triangle with the vertices \<open>(0,0,0)\<close>, \<open>(1,0,0)\<close>, \<open>(0,1,0)\<close> (the pattern
  \<open>0x3F800000\<close> is the float 1), texture 0 and texture coordinates 0.
\<close>

definition one_tri_verts :: "nat \<Rightarrow> GLfloat" where
  "one_tri_verts i = [0, 0, 0, 0x3F800000, 0, 0, 0, 0x3F800000, 0] ! i"

definition one_tri_tex_indices :: "nat \<Rightarrow> Uint16" where
  "one_tri_tex_indices i = 0"

definition one_tri_tex_coords :: "nat \<Rightarrow> GLfloat" where
  "one_tri_tex_coords i = 0"

text \<open>A texture name of one byte, and one of 256 bytes.\<close>

definition short_names :: "nat \<Rightarrow> Uint8 list" where
  "short_names i = [0x61]"

definition long_names :: "nat \<Rightarrow> Uint8 list" where
  "long_names i = replicate 256 0x61"

text \<open>
  A mesh that holds that triangle, and a float conversion that is
  right on the numbers 0 and 1 (the only values the examples convert).
\<close>

definition one_tri_mesh :: GLData where
  "one_tri_mesh = \<lparr> nMaps = 1, mapNames = [[0x61]], mapTriNums = [1], nVertices = 3,
      vertCoords = [0, 0, 0, 0x3F800000, 0, 0, 0, 0x3F800000, 0], texCoords = [0, 0, 0, 0, 0, 0],
      minX = 0, maxX = 0x3F800000, minY = 0, maxY = 0x3F800000, minZ = 0, maxZ = FLT_MIN,
      numTri = 1, triFaces = [[0, 1, 2]] \<rparr>"

definition rnd_zero :: "real \<Rightarrow> GLfloat" where
  "rnd_zero x = (if x = 1 then 0x3F800000 else 0)"

text \<open>
  Two triangles of a working list, in the planes \<open>z = 0\<close> and \<open>z = 1\<close>, each with its plane
  as \<open>GetPlaneForTri\<close> computes it; and a triangle in the plane \<open>x = 0\<close> with the vertices
  \<open>(0,0,-1)\<close>, \<open>(0,0,1)\<close>, \<open>(0,1,0)\<close>, which the plane \<open>z = 0\<close> cuts (the pattern
  \<open>0xBF800000\<close> is the float -1).
\<close>

definition plane_z0 :: BSPPlane where
  "plane_z0 = \<lparr> A = 0, B = 0, C = 1, D = 0 \<rparr>"

definition flat_tri_z0 :: BSPTriNode where
  "flat_tri_z0 = \<lparr> V = [[0, 0, 0], [0x3F800000, 0, 0], [0, 0x3F800000, 0]], plane = plane_z0,
      tIndex = 0, T = [[0, 0], [0, 0], [0, 0]] \<rparr>"

definition flat_tri_z1 :: BSPTriNode where
  "flat_tri_z1 = \<lparr> V = [[0, 0, 0x3F800000], [0x3F800000, 0, 0x3F800000], [0, 0x3F800000, 0x3F800000]],
      plane = \<lparr> A = 0, B = 0, C = 1, D = - 1 \<rparr>, tIndex = 0, T = [[0, 0], [0, 0], [0, 0]] \<rparr>"

definition span_plane :: BSPPlane where
  "span_plane = \<lparr> A = - 1, B = 0, C = 0, D = 0 \<rparr>"

definition span_tri :: BSPTriNode where
  "span_tri = \<lparr> V = [[0, 0, 0xBF800000], [0, 0, 0x3F800000], [0, 0x3F800000, 0]],
      plane = span_plane, tIndex = 0, T = [[0, 0], [0, 0], [0, 0]] \<rparr>"

text \<open>
  A decoder of doubles that is right on the doubles 0 (eight zero bytes) and 1, the only
  ones in the examples. Two nodes as \<open>WriteBSPTree\<close> writes them: one without triangles,
  with the plane \<open>z = 0\<close> and no children, and one with the triangle of the vertices 0, 1, 2
  (of the table \<open>one_tri_table\<close>) and no children. A file with one texture named "a", one
  vertex and a root node without triangles whose \<open>cFlag\<close> byte is \<open>0x01\<close>.
\<close>

definition dec_01 :: "Uint8 list \<Rightarrow> GLdouble" where
  "dec_01 b = (if b = [0, 0, 0, 0, 0, 0, 0xF0, 0x3F] then 1 else 0)"




definition bad_flag_node :: "Uint8 list" where
  "bad_flag_node = le16 0 @
      [0, 0, 0, 0, 0, 0, 0, 0, 0, 0, 0, 0, 0, 0, 0, 0,
       0, 0, 0, 0, 0, 0, 0, 0, 0, 0, 0, 0, 0, 0, 0, 0] @ [0x01]"

definition bad_flag_file :: "Uint8 list" where
  "bad_flag_file = [0x42, 0x53, 0x50, 0x00, 0x10] @ le16 1 @ [0x61, 0x00] @ le32 0 @
      le16 1 @ (le32 0 @ le32 0 @ le32 0) @ (le32 0 @ le32 0) @
      (le32 0 @ le32 0 @ le32 0 @ le32 0 @ le32 0 @ le32 0) @ le16 1 @ le16 1 @ le32 0 @
      bad_flag_node"

section \<open>The score of a candidate root in the words of the specification\<close>

text \<open>
  The score of the specification for the candidate at place \<open>c\<close> of a working list: the
  number of other triangles that its plane splits, plus the distance between the number of
  other triangles in front of its plane and the number behind it, as natural numbers.
\<close>

definition others_of_type :: "BSPTriNode list \<Rightarrow> nat \<Rightarrow> TriType \<Rightarrow> nat list \<Rightarrow> nat" where
  "others_of_type triList c ty js =
     length (filter (\<lambda>j. j \<noteq> c \<and> ClassifyTri (triList ! j) (plane (triList ! c)) = ty) js)"

definition root_score :: "BSPTriNode list \<Rightarrow> nat \<Rightarrow> nat" where
  "root_score triList c =
     (let splits = others_of_type triList c SPANNING [0..<length triList];
          inFront = others_of_type triList c IN_FRONT [0..<length triList];
          inBack = others_of_type triList c IN_BACK [0..<length triList]
      in splits + nat \<bar>int inFront - int inBack\<bar>)"

section \<open>Malformed files in the words of the specification\<close>

text \<open>
  The magic is "BSP" with its NUL and the version byte is \<open>0x10\<close>. And: the preorder read
  of the nodes that starts at \<open>bs\<close> meets \<open>c\<close> as the \<open>cFlag\<close> byte of a node, in the node
  at \<open>bs\<close> itself, in its back tree, or in its front tree after the back tree, if there is
  one, has been read.
\<close>

definition bsp_header_ok :: "Uint8 list \<Rightarrow> bool" where
  "bsp_header_ok bs \<longleftrightarrow> take 4 bs = [0x42, 0x53, 0x50, 0x00] \<and> take 1 (drop 4 bs) = [0x10]"

inductive meets_cFlag :: "(Uint8 list \<Rightarrow> GLdouble) \<Rightarrow> GLfloat list \<Rightarrow> Uint8 list \<Rightarrow> Uint8 \<Rightarrow> bool"
  for dec :: "Uint8 list \<Rightarrow> GLdouble" and vc :: "GLfloat list" where
  at_node: "ReadBSPTree_node dec vc bs = Inr (n, tris, p, c, r) \<Longrightarrow> meets_cFlag dec vc bs c"
| in_back: "ReadBSPTree_node dec vc bs = Inr (n, tris, p, f, r) \<Longrightarrow> ReadBSPTree_switch f = Inr (True, hf) \<Longrightarrow>
     meets_cFlag dec vc r c \<Longrightarrow> meets_cFlag dec vc bs c"
| in_front: "ReadBSPTree_node dec vc bs = Inr (n, tris, p, f, r) \<Longrightarrow> ReadBSPTree_switch f = Inr (False, True) \<Longrightarrow>
     meets_cFlag dec vc r c \<Longrightarrow> meets_cFlag dec vc bs c"
| in_front_after_back: "ReadBSPTree_node dec vc bs = Inr (n, tris, p, f, r) \<Longrightarrow>
     ReadBSPTree_switch f = Inr (True, True) \<Longrightarrow> ReadBSPTree (Suc (length r)) dec vc r = Inr (t, r') \<Longrightarrow>
     meets_cFlag dec vc r' c \<Longrightarrow> meets_cFlag dec vc bs c"

section \<open>Auxiliary notions for the proofs\<close>

text \<open>One step of a per-texture triangle counter.\<close>

definition inc_at :: "(nat \<Rightarrow> Uint16) \<Rightarrow> Uint32 \<Rightarrow> Uint32 list \<Rightarrow> Uint32 list" where
  "inc_at tx i c = c[unat (tx (unat i)) := c ! unat (tx (unat i)) + 1]"

text \<open>
  The invariant of the second loop of \<open>GenGLData\<close>, for \<open>N\<close> input triangles after \<open>p\<close>
  vertices: the tables keep their allocated size, hold at most \<open>p\<close> definitions, and the
  definitions are pairwise apart.
\<close>

definition gen_inv :: "nat \<Rightarrow> nat \<Rightarrow> GenState \<Rightarrow> bool" where
  "gen_inv p N s \<longleftrightarrow> length (vertCoords s) = 9 * N \<and> length (texCoords s) = 6 * N \<and>
      unat (nVertices s) \<le> p \<and> gld_separated (vertCoords s) (texCoords s) (unat (nVertices s))"

text \<open>
  Edge \<open>i\<close> of a triangle, from vertex \<open>i\<close> to vertex \<open>(i + 1) mod 3\<close>, joins the two sides of
  the plane, for the labels \<open>vt\<close> of the three vertices.
\<close>

definition crosses :: "PointType list \<Rightarrow> nat \<Rightarrow> bool" where
  "crosses vt i \<longleftrightarrow> (vt ! i = ABOVE_PLANE \<and> vt ! ((i + 1) mod 3) = BELOW_PLANE) \<or>
     (vt ! i = BELOW_PLANE \<and> vt ! ((i + 1) mod 3) = ABOVE_PLANE)"

text \<open>
  What the scan of \<open>SelectNextRoot\<close> over the candidates \<open>cs\<close> returns, from the best score
  \<open>ms\<close> and the best node \<open>best\<close> so far and \<open>n\<close> candidates scored: the first candidate
  of least score when one scores below \<open>ms\<close>, and \<open>best\<close> otherwise.
\<close>

definition scan_post :: "BSPTriNode list \<Rightarrow> nat list \<Rightarrow> Uint32 \<Rightarrow> nat option \<Rightarrow> nat \<Rightarrow> nat option \<times> nat \<Rightarrow> bool" where
  "scan_post ts cs ms best n r \<longleftrightarrow>
     (if \<exists>c \<in> set cs. SelectNextRoot_score ts c < ms
      then (\<exists>k < length cs. fst r = Some (cs ! k) \<and> SelectNextRoot_score ts (cs ! k) < ms \<and>
              (\<forall>j < length cs. SelectNextRoot_score ts (cs ! k) \<le> SelectNextRoot_score ts (cs ! j)) \<and>
              (\<forall>j < k. SelectNextRoot_score ts (cs ! k) < SelectNextRoot_score ts (cs ! j)) \<and>
              snd r = n + (if SelectNextRoot_score ts (cs ! k) = 0 then k + 1 else length cs))
      else fst r = best \<and> snd r = n + length cs)"

section \<open>Streams: what is written is what is read\<close>

lemma cat_hi_lo:
  fixes w :: "'c::len word"
  assumes "LENGTH('a::len) + LENGTH('b::len) = LENGTH('c)"
  shows "word_cat (ucast (drop_bit LENGTH('b) w) :: 'a word) (ucast w :: 'b word) = w"
proof (rule bit_word_eqI)
  fix n assume "n < LENGTH('c)"
  then show "bit (word_cat (ucast (drop_bit LENGTH('b) w) :: 'a word) (ucast w :: 'b word) :: 'c word) n = bit w n"
    using assms by (auto simp add: bit_word_cat_iff bit_ucast_iff bit_drop_bit_eq)
qed

lemma of_le16_le16: "of_le16 (le16 w) = w"
  using cat_hi_lo [where 'a=8 and 'b=8 and 'c=16, of w]
  by (simp add: of_le16_def le16_def)

lemma ucast_drop_16: "(ucast (drop_bit 8 (ucast (w::Uint32) :: Uint16)) :: Uint8) = ucast (drop_bit 8 w)"
  by (rule bit_word_eqI) (auto simp add: bit_ucast_iff bit_drop_bit_eq)

lemma ucast_drop_24: "(ucast (drop_bit 8 (ucast (drop_bit 16 (w::Uint32)) :: Uint16)) :: Uint8) = ucast (drop_bit 24 w)"
  by (rule bit_word_eqI) (auto simp add: bit_ucast_iff bit_drop_bit_eq)

lemma ucast_ucast_8: "(ucast (ucast (w::Uint32) :: Uint16) :: Uint8) = ucast w"
  by (rule bit_word_eqI) (auto simp add: bit_ucast_iff)

lemma of_le32_le32: "of_le32 (le32 w) = w"
proof -
  have lo: "(word_cat (ucast (drop_bit 8 w) :: Uint8) (ucast w :: Uint8) :: Uint16) = ucast w"
    using cat_hi_lo [where 'a=8 and 'b=8 and 'c=16, of "ucast w :: Uint16"]
    by (simp add: ucast_drop_16 ucast_ucast_8)
  have hi: "(word_cat (ucast (drop_bit 24 w) :: Uint8) (ucast (drop_bit 16 w) :: Uint8) :: Uint16) = ucast (drop_bit 16 w)"
    using cat_hi_lo [where 'a=8 and 'b=8 and 'c=16, of "ucast (drop_bit 16 w) :: Uint16"]
    by (simp add: ucast_drop_24 ucast_ucast_8)
  show ?thesis
    using cat_hi_lo [where 'a=16 and 'b=16 and 'c=32, of w]
    by (simp add: of_le32_def le32_def lo hi)
qed

lemma length_le16: "length (le16 w) = 2"
  by (simp add: le16_def)

lemma length_le32: "length (le32 w) = 4"
  by (simp add: le32_def)

lemma rd_u16_le16: "rd_u16 (le16 w @ r) = Some (w, r)"
  by (simp add: rd_u16_def rd_bytes_def length_le16 of_le16_le16)

lemma rd_u32_le32: "rd_u32 (le32 w @ r) = Some (w, r)"
  by (simp add: rd_u32_def rd_bytes_def length_le32 of_le32_le32)

lemma rd_array_concat:
  assumes "\<And>x r. rd (enc x @ r) = Some (x, r)"
  shows "rd_array (length xs) rd (concat (map enc xs) @ r) = Some (xs, r)"
  by (induction xs) (simp_all add: assms)

lemma c_str_append_nul: "0 \<notin> set acc \<Longrightarrow> c_str (acc @ take k [0]) = acc"
  unfolding c_str_def by (cases k) (induction acc; auto)+

lemma rd_name_loop_ok:
  "0 \<notin> set n \<Longrightarrow> 0 \<notin> set acc \<Longrightarrow> j = length acc \<Longrightarrow> j + length n \<le> 255 \<Longrightarrow>
   rd_name_loop j acc (n @ 0 # r) = Some (acc @ n, r)"
proof (induction n arbitrary: j acc)
  case Nil
  then show ?case by (simp add: c_str_append_nul)
next
  case (Cons b n)
  have "rd_name_loop (Suc (length acc)) (acc @ [b]) (n @ 0 # r) = Some ((acc @ [b]) @ n, r)"
    using Cons.prems by (intro Cons.IH) auto
  then show ?case using Cons.prems by simp
qed

lemma rd_name_ok:
  "0 \<notin> set n \<Longrightarrow> length n \<le> 255 \<Longrightarrow> rd_name (n @ 0 # r) = Some (n, r)"
  using rd_name_loop_ok [of n "[]" 0 r] by (simp add: rd_name_def)

lemma c_str_id: "0 \<notin> set n \<Longrightarrow> c_str n = n"
  unfolding c_str_def by (induction n) auto

lemma c_str_no_nul: "0 \<notin> set (c_str n)"
  unfolding c_str_def by (induction n) auto

lemma rd_faces_ok:
  "length fs = length ns \<Longrightarrow> \<forall>i < length ns. length (fs ! i) = unat (3 * ns ! i) \<Longrightarrow>
   rd_faces ns (concat (map (\<lambda>i. concat (map le16 (take (unat (3 * ns ! i)) (fs ! i)))) [0..<length ns]) @ r)
     = Some (fs, r)"
proof (induction ns arbitrary: fs r)
  case Nil
  then show ?case by simp
next
  case (Cons n ns)
  then obtain f fs' where fs: "fs = f # fs'" by (cases fs) auto
  have lf: "length f = unat (3 * n)" using Cons.prems(2) fs by auto
  have l': "length fs' = length ns" using Cons.prems(1) fs by simp
  have a': "\<forall>i < length ns. length (fs' ! i) = unat (3 * ns ! i)"
    using Cons.prems(2) fs by auto
  have shift: "map (\<lambda>i. concat (map le16 (take (unat (3 * (n # ns) ! i)) (fs ! i)))) [0..<length (n # ns)]
      = concat (map le16 f) # map (\<lambda>i. concat (map le16 (take (unat (3 * ns ! i)) (fs' ! i)))) [0..<length ns]"
    using lf by (simp add: fs upt_conv_Cons map_Suc_upt [symmetric] del: upt_Suc)
  have hd: "rd_array (unat (3 * n)) rd_u16 (concat (map le16 f) @ r') = Some (f, r')" for r'
    using rd_array_concat [of rd_u16 le16 f r', OF rd_u16_le16] lf by simp
  show ?case
    unfolding shift using Cons.IH [OF l' a'] by (simp add: hd fs)
qed

lemma rd_array_concat_set:
  assumes "\<And>x r. x \<in> set xs \<Longrightarrow> rd (enc x @ r) = Some (x, r)"
  shows "rd_array (length xs) rd (concat (map enc xs) @ r) = Some (xs, r)"
  using assms by (induction xs) simp_all

lemma rd_names_ok:
  assumes "\<forall>n \<in> set ns. 0 \<notin> set n \<and> length n \<le> 255"
  shows "rd_array (length ns) rd_name (concat (map (\<lambda>i. c_str (ns ! i) @ [0]) [0..<length ns]) @ r) = Some (ns, r)"
proof -
  have "map (\<lambda>i. c_str (ns ! i) @ [0]) [0..<length ns] = map (\<lambda>n. n @ [0]) ns"
    using assms by (intro nth_equalityI) (simp_all add: c_str_id)
  moreover have "rd_array (length ns) rd_name (concat (map (\<lambda>n. n @ [0]) ns) @ r) = Some (ns, r)"
    using assms by (intro rd_array_concat_set) (simp add: rd_name_ok)
  ultimately show ?thesis by simp
qed

lemma LoadGLData_body_Save:
  assumes "wf_GLData g"
  shows "LoadGLData_body (drop 5 (SaveGLData (Some g))) = Some (g, [])"
proof -
  have n1: "length (mapNames g) = unat (nMaps g)" and n2: "length (mapTriNums g) = unat (nMaps g)"
    and n3: "length (vertCoords g) = 3 * unat (nVertices g)"
    and n4: "length (texCoords g) = 2 * unat (nVertices g)"
    and n5: "length (triFaces g) = length (mapTriNums g)"
    and n6: "\<forall>i < length (mapTriNums g). length (triFaces g ! i) = unat (3 * mapTriNums g ! i)"
    and n7: "\<forall>n \<in> set (mapNames g). 0 \<notin> set n \<and> length n \<le> 255"
    using assms by (simp_all add: wf_GLData_def)
  have names: "rd_array (unat (nMaps g)) rd_name
      (concat (map (\<lambda>i. c_str (mapNames g ! i) @ [0]) [0..<unat (nMaps g)]) @ r) = Some (mapNames g, r)" for r
    using rd_names_ok [OF n7, of r] by (simp add: n1)
  have nums: "rd_array (unat (nMaps g)) rd_u32 (concat (map le32 (mapTriNums g)) @ r) = Some (mapTriNums g, r)" for r
    using rd_array_concat [of rd_u32 le32 "mapTriNums g" r, OF rd_u32_le32] by (simp add: n2)
  have vc: "rd_array (3 * unat (nVertices g)) rd_u32 (concat (map le32 (vertCoords g)) @ r) = Some (vertCoords g, r)" for r
    using rd_array_concat [of rd_u32 le32 "vertCoords g" r, OF rd_u32_le32] by (simp add: n3)
  have tc: "rd_array (2 * unat (nVertices g)) rd_u32 (concat (map le32 (texCoords g)) @ r) = Some (texCoords g, r)" for r
    using rd_array_concat [of rd_u32 le32 "texCoords g" r, OF rd_u32_le32] by (simp add: n4)
  have faces: "rd_faces (mapTriNums g)
      (concat (map (\<lambda>i. concat (map le16 (take (unat (3 * mapTriNums g ! i)) (triFaces g ! i))))
         [0..<unat (nMaps g)])) = Some (triFaces g, [])"
    using rd_faces_ok [OF n5 n6, of "[]"] by (simp add: n2)
  show ?thesis
    unfolding SaveGLData_def LoadGLData_body_def
    by (simp add: GLD_FILE_MAGIC_def n2 n3 n4 rd_u16_le16 rd_u32_le32 names nums vc tc faces)
qed

lemma LoadGLData_SaveGLData:
  assumes "wf_GLData g"
  shows "LoadGLData (Some (SaveGLData (Some g))) = Loaded g"
proof -
  have hdr: "5 \<le> length (SaveGLData (Some g)) \<and> take 4 (SaveGLData (Some g)) = GLD_FILE_MAGIC @ [0]
      \<and> SaveGLData (Some g) ! 4 = GLD_VER"
    by (simp add: SaveGLData_def GLD_FILE_MAGIC_def)
  show ?thesis
    unfolding LoadGLData_def using hdr LoadGLData_body_Save [OF assms] by simp
qed

section \<open>Invariants of the mesh builder\<close>

lemma vertex_frame:
  "nMaps (fst (GenGLData_vertex Vp Tp s)) = nMaps s"
  "mapNames (fst (GenGLData_vertex Vp Tp s)) = mapNames s"
  "mapTriNums (fst (GenGLData_vertex Vp Tp s)) = mapTriNums s"
  "triFaces (fst (GenGLData_vertex Vp Tp s)) = triFaces s"
  "skippedTris (fst (GenGLData_vertex Vp Tp s)) = skippedTris s"
  "length (vertCoords (fst (GenGLData_vertex Vp Tp s))) = length (vertCoords s)"
  "length (texCoords (fst (GenGLData_vertex Vp Tp s))) = length (texCoords s)"
  by (simp_all add: GenGLData_vertex_def Let_def)

lemma triangle_skipped_mono:
  "skippedTris s \<Longrightarrow> skippedTris (GenGLData_triangle tv tx tt i s)"
  by (simp add: GenGLData_triangle_def Let_def case_prod_beta vertex_frame)

lemma triangle_not_skipped:
  "\<not> skippedTris (GenGLData_triangle tv tx tt i s) \<Longrightarrow>
   mapTriNums (GenGLData_triangle tv tx tt i s) = inc_at tx i (mapTriNums s)"
  by (simp add: GenGLData_triangle_def Let_def case_prod_beta vertex_frame inc_at_def split: if_splits)

lemma length_nth_list_update: "length (fs[k := (fs ! k)[a := x, b := y, c := z]] ! t) = length (fs ! t)"
  by (cases "k < length fs"; cases "t = k") (simp_all add: not_less list_update_beyond)

lemma triangle_frame:
  "nMaps (GenGLData_triangle tv tx tt i s) = nMaps s"
  "mapNames (GenGLData_triangle tv tx tt i s) = mapNames s"
  "length (mapTriNums (GenGLData_triangle tv tx tt i s)) = length (mapTriNums s)"
  "length (triFaces (GenGLData_triangle tv tx tt i s)) = length (triFaces s)"
  "length (triFaces (GenGLData_triangle tv tx tt i s) ! t) = length (triFaces s ! t)"
  "length (vertCoords (GenGLData_triangle tv tx tt i s)) = length (vertCoords s)"
  "length (texCoords (GenGLData_triangle tv tx tt i s)) = length (texCoords s)"
  by (simp_all add: GenGLData_triangle_def Let_def case_prod_beta vertex_frame length_nth_list_update)

lemma fold_triangle_frame:
  "nMaps (fold (GenGLData_triangle tv tx tt) is s) = nMaps s"
  "mapNames (fold (GenGLData_triangle tv tx tt) is s) = mapNames s"
  "length (mapTriNums (fold (GenGLData_triangle tv tx tt) is s)) = length (mapTriNums s)"
  "length (triFaces (fold (GenGLData_triangle tv tx tt) is s)) = length (triFaces s)"
  "length (triFaces (fold (GenGLData_triangle tv tx tt) is s) ! t) = length (triFaces s ! t)"
  "length (vertCoords (fold (GenGLData_triangle tv tx tt) is s)) = length (vertCoords s)"
  "length (texCoords (fold (GenGLData_triangle tv tx tt) is s)) = length (texCoords s)"
  by (induction "is" arbitrary: s; simp add: triangle_frame)+

lemma fold_triangle_not_skipped:
  "\<not> skippedTris (fold (GenGLData_triangle tv tx tt) is s) \<Longrightarrow>
   \<not> skippedTris s \<and> mapTriNums (fold (GenGLData_triangle tv tx tt) is s) = fold (inc_at tx) is (mapTriNums s)"
proof (induction "is" arbitrary: s)
  case Nil
  then show ?case by simp
next
  case (Cons i "is")
  have a: "\<not> skippedTris (GenGLData_triangle tv tx tt i s)"
    and b: "mapTriNums (fold (GenGLData_triangle tv tx tt) is (GenGLData_triangle tv tx tt i s))
           = fold (inc_at tx) is (mapTriNums (GenGLData_triangle tv tx tt i s))"
    using Cons.IH [of "GenGLData_triangle tv tx tt i s"] Cons.prems by simp_all
  have "\<not> skippedTris s" using a triangle_skipped_mono by blast
  then show ?case using b triangle_not_skipped [OF a] by simp
qed

lemma GenGLData_count_fold:
  "GenGLData_count tx nm is c = Some c' \<Longrightarrow> c' = fold (inc_at tx) is c"
  by (induction "is" arbitrary: c) (auto simp add: Let_def inc_at_def split: if_splits)

lemma length_c_realloc: "length (c_realloc n xs j) = n"
  by (simp add: c_realloc_def)

lemma GenGLData_SomeD:
  assumes "GenGLData junkf junki nTri triVerts texIndices triTexCoords nm texMapNames = Some g"
  obtains cnt where
    "GenGLData_count (the texIndices) nm (map word_of_nat [0..<unat nTri]) (replicate (unat nm) 0) = Some cnt"
    "g = GLData.truncate (GenGLData_trim junkf junki
               (fold (GenGLData_triangle (the triVerts) (the texIndices) (the triTexCoords))
                  (map word_of_nat [0..<unat nTri])
                  (GenGLData_init junkf junki nTri nm (the texMapNames) cnt)))"
  using assms unfolding GenGLData_def
  by (auto simp add: Let_def split: if_splits option.splits)

lemma trim_fields:
  "nMaps (GenGLData_trim jf ji s) = nMaps s"
  "mapNames (GenGLData_trim jf ji s) = mapNames s"
  "mapTriNums (GenGLData_trim jf ji s) = mapTriNums s"
  "nVertices (GenGLData_trim jf ji s) = nVertices s"
  "vertCoords (GenGLData_trim jf ji s) = c_realloc (3 * unat (nVertices s)) (vertCoords s) jf"
  "texCoords (GenGLData_trim jf ji s) = c_realloc (2 * unat (nVertices s)) (texCoords s) jf"
  "length (triFaces (GenGLData_trim jf ji s)) = (if skippedTris s then unat (nMaps s) else length (triFaces s))"
  by (simp_all add: GenGLData_trim_def Let_def)

lemma trim_faces:
  "i < unat (nMaps s) \<Longrightarrow> triFaces (GenGLData_trim jf ji s) ! i =
     (if skippedTris s then c_realloc (unat (3 * mapTriNums s ! i)) (triFaces s ! i) ji else triFaces s ! i)"
  by (simp add: GenGLData_trim_def Let_def)

lemma init_fields:
  "nMaps (GenGLData_init jf ji nTri nm names cnt) = nm"
  "mapNames (GenGLData_init jf ji nTri nm names cnt) = map (\<lambda>i. c_str (names i)) [0..<unat nm]"
  "mapTriNums (GenGLData_init jf ji nTri nm names cnt) = replicate (unat nm) 0"
  "nVertices (GenGLData_init jf ji nTri nm names cnt) = 0"
  "length (vertCoords (GenGLData_init jf ji nTri nm names cnt)) = 9 * unat nTri"
  "length (texCoords (GenGLData_init jf ji nTri nm names cnt)) = 6 * unat nTri"
  "length (triFaces (GenGLData_init jf ji nTri nm names cnt)) = unat nm"
  "skippedTris (GenGLData_init jf ji nTri nm names cnt) = False"
  by (simp_all add: GenGLData_init_def c_malloc_def)

lemma init_faces:
  "i < unat nm \<Longrightarrow> length (triFaces (GenGLData_init jf ji nTri nm names cnt) ! i) = unat (3 * cnt ! i)"
  by (simp add: GenGLData_init_def c_malloc_def)

lemma GenGLData_wf:
  assumes gen: "GenGLData junkf junki nTri triVerts texIndices triTexCoords nm texMapNames = Some g"
    and names: "\<forall>i < unat nm. length (c_str (the texMapNames i)) \<le> 255"
  shows "wf_GLData g"
proof -
  define tris :: "Uint32 list" where "tris = map word_of_nat [0..<unat nTri]"
  obtain cnt where cnt: "GenGLData_count (the texIndices) nm tris (replicate (unat nm) 0) = Some cnt"
    and g: "g = GLData.truncate (GenGLData_trim junkf junki
               (fold (GenGLData_triangle (the triVerts) (the texIndices) (the triTexCoords)) tris
                  (GenGLData_init junkf junki nTri nm (the texMapNames) cnt)))"
    using GenGLData_SomeD [OF gen] unfolding tris_def by blast
  define s where "s = fold (GenGLData_triangle (the triVerts) (the texIndices) (the triTexCoords)) tris
                  (GenGLData_init junkf junki nTri nm (the texMapNames) cnt)"
  have f1: "nMaps s = nm" "mapNames s = map (\<lambda>i. c_str (the texMapNames i)) [0..<unat nm]"
    "length (mapTriNums s) = unat nm" "length (triFaces s) = unat nm"
    unfolding s_def by (simp_all add: fold_triangle_frame init_fields)
  have f2: "length (triFaces s ! t) = unat (3 * cnt ! t)" if "t < unat nm" for t
    unfolding s_def using that by (simp add: fold_triangle_frame init_faces)
  have f3: "mapTriNums s = cnt" if "\<not> skippedTris s"
  proof -
    have "mapTriNums s = fold (inc_at (the texIndices)) tris (replicate (unat nm) 0)"
      using that fold_triangle_not_skipped [of "the triVerts" "the texIndices" "the triTexCoords" tris
          "GenGLData_init junkf junki nTri nm (the texMapNames) cnt"]
      unfolding s_def by (simp add: init_fields)
    moreover have "cnt = fold (inc_at (the texIndices)) tris (replicate (unat nm) 0)"
      using cnt by (rule GenGLData_count_fold)
    ultimately show ?thesis by simp
  qed
  have faces: "\<forall>i < unat nm. length (triFaces (GenGLData_trim junkf junki s) ! i)
      = unat (3 * mapTriNums (GenGLData_trim junkf junki s) ! i)"
    using f2 f3 by (auto simp add: trim_faces trim_fields f1 length_c_realloc)
  have nm: "\<forall>n \<in> set (mapNames (GenGLData_trim junkf junki s)). 0 \<notin> set n \<and> length n \<le> 255"
    using names by (auto simp add: trim_fields f1 c_str_no_nul)
  show ?thesis
    unfolding wf_GLData_def g s_def [symmetric] using faces nm
    by (simp add: GLData.truncate_def trim_fields f1 length_c_realloc)
qed

lemma first_index_le: "first_index P n \<le> n"
  by (auto simp add: first_index_def find_Some_iff split: option.splits)

lemma first_index_none: "\<not> first_index P n < n \<Longrightarrow> i < n \<Longrightarrow> \<not> P i"
  by (auto simp add: first_index_def find_Some_iff find_None_iff split: option.splits)

lemma coords_differ_sym: "coords_differ ev et a b \<Longrightarrow> coords_differ ev et b a"
  unfolding coords_differ_def by (simp add: abs_minus_commute)

lemma not_close_differ:
  "\<not> gld_close vc tc Vp Tp i \<Longrightarrow>
   coords_differ GLD_VERT_ORD_EPSILON GLD_TEX_ORD_EPSILON (gld_entry vc tc i) ([Vp ! 0, Vp ! 1, Vp ! 2], [Tp ! 0, Tp ! 1])"
  unfolding gld_close_def coords_differ_def gld_entry_def by (auto simp add: not_le)

lemma gld_entry_old:
  assumes "i < n"
  shows "gld_entry (vc[3 * n + 0 := a, 3 * n + 1 := b, 3 * n + 2 := c]) (tc[2 * n + 0 := d, 2 * n + 1 := e]) i
     = gld_entry vc tc i"
  using assms by (simp add: gld_entry_def)

lemma gld_entry_new:
  assumes "3 * n + 2 < length vc" "2 * n + 1 < length tc"
  shows "gld_entry (vc[3 * n + 0 := a, 3 * n + 1 := b, 3 * n + 2 := c]) (tc[2 * n + 0 := d, 2 * n + 1 := e]) n
     = ([a, b, c], [d, e])"
  using assms by (simp add: gld_entry_def)

lemma unat_Suc16: "unat (w :: Uint16) \<noteq> 65535 \<Longrightarrow> unat (w + 1) = unat w + 1"
proof -
  assume a: "unat w \<noteq> 65535"
  have "unat w < 2 ^ LENGTH(16)" by (rule unsigned_less)
  then have "unat w + 1 < 65536" using a by simp
  then show ?thesis by (simp add: unat_word_ariths)
qed

lemma unat_wrap16: "unat (w :: Uint16) = 65535 \<Longrightarrow> unat (w + 1) = 0"
  by (simp add: unat_word_ariths)


lemma three_cases: "i < n + 1 \<Longrightarrow> j < n + 1 \<Longrightarrow> i \<noteq> j \<Longrightarrow>
   (i < n \<and> j < n) \<or> (i < n \<and> j = n) \<or> (i = n \<and> j < (n::nat))"
  by arith

lemma vertex_found:
  assumes "first_index (gld_close (vertCoords s) (texCoords s) Vp Tp) (unat (nVertices s)) < unat (nVertices s)"
  shows "fst (GenGLData_vertex Vp Tp s) = s"
  using assms by (simp add: GenGLData_vertex_def Let_def)

lemma vertex_new:
  assumes "\<not> first_index (gld_close (vertCoords s) (texCoords s) Vp Tp) (unat (nVertices s)) < unat (nVertices s)"
  shows "vertCoords (fst (GenGLData_vertex Vp Tp s)) = (vertCoords s)[3 * unat (nVertices s) + 0 := Vp ! 0, 3 * unat (nVertices s) + 1 := Vp ! 1, 3 * unat (nVertices s) + 2 := Vp ! 2]"
   "texCoords (fst (GenGLData_vertex Vp Tp s)) = (texCoords s)[2 * unat (nVertices s) + 0 := Tp ! 0, 2 * unat (nVertices s) + 1 := Tp ! 1]"
      "nVertices (fst (GenGLData_vertex Vp Tp s)) = nVertices s + 1"
proof -
  have "first_index (gld_close (vertCoords s) (texCoords s) Vp Tp) (unat (nVertices s)) = unat (nVertices s)"
    using assms first_index_le [of "gld_close (vertCoords s) (texCoords s) Vp Tp" "unat (nVertices s)"] by simp
  then show "vertCoords (fst (GenGLData_vertex Vp Tp s)) = (vertCoords s)[3 * unat (nVertices s) + 0 := Vp ! 0, 3 * unat (nVertices s) + 1 := Vp ! 1, 3 * unat (nVertices s) + 2 := Vp ! 2]"
   "texCoords (fst (GenGLData_vertex Vp Tp s)) = (texCoords s)[2 * unat (nVertices s) + 0 := Tp ! 0, 2 * unat (nVertices s) + 1 := Tp ! 1]"
      "nVertices (fst (GenGLData_vertex Vp Tp s)) = nVertices s + 1"
    by (simp_all add: GenGLData_vertex_def Let_def)
qed

lemma separated_extend:
  assumes sep: "gld_separated vc tc n"
    and far: "\<And>i. i < n \<Longrightarrow> coords_differ GLD_VERT_ORD_EPSILON GLD_TEX_ORD_EPSILON (gld_entry vc tc i) ([a, b, c], [d, e])"
    and len: "3 * n + 2 < length vc" "2 * n + 1 < length tc"
  shows "gld_separated (vc[3 * n + 0 := a, 3 * n + 1 := b, 3 * n + 2 := c]) (tc[2 * n + 0 := d, 2 * n + 1 := e]) (n + 1)"
  unfolding gld_separated_def
proof (intro allI impI)
  fix i j assume ij: "i < n + 1" "j < n + 1" "i \<noteq> j"
  let ?vc = "vc[3 * n + 0 := a, 3 * n + 1 := b, 3 * n + 2 := c]" and ?tc = "tc[2 * n + 0 := d, 2 * n + 1 := e]"
  have new: "gld_entry ?vc ?tc n = ([a, b, c], [d, e])"
    using len by (rule gld_entry_new)
  from three_cases [OF ij]
  show "coords_differ GLD_VERT_ORD_EPSILON GLD_TEX_ORD_EPSILON (gld_entry ?vc ?tc i) (gld_entry ?vc ?tc j)"
  proof (elim disjE conjE)
    assume lt: "i < n" "j < n"
    then have "coords_differ GLD_VERT_ORD_EPSILON GLD_TEX_ORD_EPSILON (gld_entry vc tc i) (gld_entry vc tc j)"
      using sep ij(3) unfolding gld_separated_def by blast
    then show ?thesis
      by (simp only: gld_entry_old [OF lt(1)] gld_entry_old [OF lt(2)])
  next
    assume "i < n" "j = n"
    then show ?thesis
      using far [of i] by (simp only: gld_entry_old new)
  next
    assume "i = n" "j < n"
    then show ?thesis
      using coords_differ_sym [OF far [of j]] by (simp only: gld_entry_old new)
  qed
qed

lemma vertex_inv:
  assumes inv: "gen_inv p N s" and p: "p < 3 * N"
  shows "gen_inv (p + 1) N (fst (GenGLData_vertex Vp Tp s))"
proof (cases "first_index (gld_close (vertCoords s) (texCoords s) Vp Tp) (unat (nVertices s)) < unat (nVertices s)")
  case True
  show ?thesis
    using inv unfolding vertex_found [OF True] gen_inv_def by simp
next
  case False
  define n where "n = unat (nVertices s)"
  have len: "length (vertCoords s) = 9 * N" "length (texCoords s) = 6 * N" and np: "n \<le> p"
    and sep: "gld_separated (vertCoords s) (texCoords s) n"
    using inv by (simp_all add: gen_inv_def n_def)
  have far: "coords_differ GLD_VERT_ORD_EPSILON GLD_TEX_ORD_EPSILON (gld_entry (vertCoords s) (texCoords s) i)
        ([Vp ! 0, Vp ! 1, Vp ! 2], [Tp ! 0, Tp ! 1])" if "i < n" for i
    using first_index_none [OF False that [unfolded n_def]] by (rule not_close_differ)
  have cap: "3 * n + 2 < length (vertCoords s)" "2 * n + 1 < length (texCoords s)"
    using np p by (simp_all add: len)
  have sep': "gld_separated (vertCoords (fst (GenGLData_vertex Vp Tp s))) (texCoords (fst (GenGLData_vertex Vp Tp s))) (n + 1)"
    unfolding vertex_new [OF False] n_def [symmetric]
    using sep far cap by (rule separated_extend)
  have len': "length (vertCoords (fst (GenGLData_vertex Vp Tp s))) = 9 * N"
    "length (texCoords (fst (GenGLData_vertex Vp Tp s))) = 6 * N"
    by (simp_all add: vertex_frame len)
  show ?thesis
  proof (cases "n = 65535")
    case True
    then have "unat (nVertices s + 1) = 0" using unat_wrap16 [of "nVertices s"] by (simp add: n_def)
    then show ?thesis
      unfolding gen_inv_def vertex_new(3) [OF False] using len' by (simp add: gld_separated_def)
  next
    case F: False
    then have n1: "unat (nVertices s + 1) = n + 1" using unat_Suc16 [of "nVertices s"] by (simp add: n_def)
    show ?thesis
      unfolding gen_inv_def vertex_new(3) [OF False] n1 using len' sep' np by simp
  qed
qed

lemma triangle_tables:
  "\<exists>V0 T0 V1 T1 V2 T2.
     vertCoords (GenGLData_triangle tv tx tt i s) =
       vertCoords (fst (GenGLData_vertex V2 T2 (fst (GenGLData_vertex V1 T1 (fst (GenGLData_vertex V0 T0 s)))))) \<and>
     texCoords (GenGLData_triangle tv tx tt i s) =
       texCoords (fst (GenGLData_vertex V2 T2 (fst (GenGLData_vertex V1 T1 (fst (GenGLData_vertex V0 T0 s)))))) \<and>
     nVertices (GenGLData_triangle tv tx tt i s) =
       nVertices (fst (GenGLData_vertex V2 T2 (fst (GenGLData_vertex V1 T1 (fst (GenGLData_vertex V0 T0 s))))))"
proof -
  obtain s0 v0 where a: "GenGLData_vertex [tv (unat (9 * i + 3 * 0 + 0)), tv (unat (9 * i + 3 * 0 + 1)),
                  tv (unat (9 * i + 3 * 0 + 2))] [tt (unat (6 * i + 2 * 0 + 0)), tt (unat (6 * i + 2 * 0 + 1))] s = (s0, v0)"
    by (cases "GenGLData_vertex [tv (unat (9 * i + 3 * 0 + 0)), tv (unat (9 * i + 3 * 0 + 1)),
                  tv (unat (9 * i + 3 * 0 + 2))] [tt (unat (6 * i + 2 * 0 + 0)), tt (unat (6 * i + 2 * 0 + 1))] s")
  obtain s1 v1 where b: "GenGLData_vertex [tv (unat (9 * i + 3 * 1 + 0)), tv (unat (9 * i + 3 * 1 + 1)),
                  tv (unat (9 * i + 3 * 1 + 2))] [tt (unat (6 * i + 2 * 1 + 0)), tt (unat (6 * i + 2 * 1 + 1))] s0 = (s1, v1)"
    by (cases "GenGLData_vertex [tv (unat (9 * i + 3 * 1 + 0)), tv (unat (9 * i + 3 * 1 + 1)),
                  tv (unat (9 * i + 3 * 1 + 2))] [tt (unat (6 * i + 2 * 1 + 0)), tt (unat (6 * i + 2 * 1 + 1))] s0")
  obtain s2 v2 where c: "GenGLData_vertex [tv (unat (9 * i + 3 * 2 + 0)), tv (unat (9 * i + 3 * 2 + 1)),
                  tv (unat (9 * i + 3 * 2 + 2))] [tt (unat (6 * i + 2 * 2 + 0)), tt (unat (6 * i + 2 * 2 + 1))] s1 = (s2, v2)"
    by (cases "GenGLData_vertex [tv (unat (9 * i + 3 * 2 + 0)), tv (unat (9 * i + 3 * 2 + 1)),
                  tv (unat (9 * i + 3 * 2 + 2))] [tt (unat (6 * i + 2 * 2 + 0)), tt (unat (6 * i + 2 * 2 + 1))] s1")
  have "vertCoords (GenGLData_triangle tv tx tt i s) = vertCoords s2"
    "texCoords (GenGLData_triangle tv tx tt i s) = texCoords s2"
    "nVertices (GenGLData_triangle tv tx tt i s) = nVertices s2"
    unfolding GenGLData_triangle_def Let_def a b c prod.case by simp_all
  moreover have "s0 = fst (GenGLData_vertex [tv (unat (9 * i + 3 * 0 + 0)), tv (unat (9 * i + 3 * 0 + 1)),
                  tv (unat (9 * i + 3 * 0 + 2))] [tt (unat (6 * i + 2 * 0 + 0)), tt (unat (6 * i + 2 * 0 + 1))] s)"
    unfolding a by simp
  moreover have "s1 = fst (GenGLData_vertex [tv (unat (9 * i + 3 * 1 + 0)), tv (unat (9 * i + 3 * 1 + 1)),
                  tv (unat (9 * i + 3 * 1 + 2))] [tt (unat (6 * i + 2 * 1 + 0)), tt (unat (6 * i + 2 * 1 + 1))] s0)"
    unfolding b by simp
  moreover have "s2 = fst (GenGLData_vertex [tv (unat (9 * i + 3 * 2 + 0)), tv (unat (9 * i + 3 * 2 + 1)),
                  tv (unat (9 * i + 3 * 2 + 2))] [tt (unat (6 * i + 2 * 2 + 0)), tt (unat (6 * i + 2 * 2 + 1))] s1)"
    unfolding c by simp
  ultimately show ?thesis by blast
qed

lemma triangle_inv:
  assumes inv: "gen_inv (3 * q) N s" and q: "q < N"
  shows "gen_inv (3 * q + 3) N (GenGLData_triangle tv tx tt i s)"
proof -
  obtain V0 T0 V1 T1 V2 T2 where t:
    "vertCoords (GenGLData_triangle tv tx tt i s) =
       vertCoords (fst (GenGLData_vertex V2 T2 (fst (GenGLData_vertex V1 T1 (fst (GenGLData_vertex V0 T0 s))))))"
    "texCoords (GenGLData_triangle tv tx tt i s) =
       texCoords (fst (GenGLData_vertex V2 T2 (fst (GenGLData_vertex V1 T1 (fst (GenGLData_vertex V0 T0 s))))))"
    "nVertices (GenGLData_triangle tv tx tt i s) =
       nVertices (fst (GenGLData_vertex V2 T2 (fst (GenGLData_vertex V1 T1 (fst (GenGLData_vertex V0 T0 s))))))"
    using triangle_tables [of tv tx tt i s] by blast
  have i0: "gen_inv (3 * q + 1) N (fst (GenGLData_vertex V0 T0 s))"
    using q by (intro vertex_inv [OF inv]) simp
  have i1: "gen_inv (3 * q + 1 + 1) N (fst (GenGLData_vertex V1 T1 (fst (GenGLData_vertex V0 T0 s))))"
    using q by (intro vertex_inv [OF i0]) simp
  have i2: "gen_inv (3 * q + 1 + 1 + 1) N
      (fst (GenGLData_vertex V2 T2 (fst (GenGLData_vertex V1 T1 (fst (GenGLData_vertex V0 T0 s))))))"
    using q by (intro vertex_inv [OF i1]) simp
  show ?thesis
    using i2 unfolding gen_inv_def t by simp
qed

lemma fold_triangle_inv:
  "gen_inv (3 * q) N s \<Longrightarrow> q + length is \<le> N \<Longrightarrow>
   gen_inv (3 * (q + length is)) N (fold (GenGLData_triangle tv tx tt) is s)"
proof (induction "is" arbitrary: q s)
  case Nil
  then show ?case by simp
next
  case (Cons i "is")
  have "gen_inv (3 * (q + 1)) N (GenGLData_triangle tv tx tt i s)"
    using triangle_inv [OF Cons.prems(1), of tv tx tt i] Cons.prems(2) by (simp add: algebra_simps)
  then have "gen_inv (3 * (q + 1 + length is)) N (fold (GenGLData_triangle tv tx tt) is (GenGLData_triangle tv tx tt i s))"
    using Cons.prems(2) by (intro Cons.IH) simp_all
  then show ?case by simp
qed

lemma gld_entry_realloc:
  assumes "i < n" "3 * n \<le> length vc" "2 * n \<le> length tc"
  shows "gld_entry (c_realloc (3 * n) vc jf) (c_realloc (2 * n) tc jf) i = gld_entry vc tc i"
  using assms by (simp add: gld_entry_def c_realloc_def)

lemma GenGLData_separated:
  assumes gen: "GenGLData junkf junki nTri triVerts texIndices triTexCoords nm texMapNames = Some g"
  shows "gld_separated (vertCoords g) (texCoords g) (unat (nVertices g))"
proof -
  define tris :: "Uint32 list" where "tris = map word_of_nat [0..<unat nTri]"
  obtain cnt where g: "g = GLData.truncate (GenGLData_trim junkf junki
               (fold (GenGLData_triangle (the triVerts) (the texIndices) (the triTexCoords)) tris
                  (GenGLData_init junkf junki nTri nm (the texMapNames) cnt)))"
    using GenGLData_SomeD [OF gen] unfolding tris_def by blast
  define s where "s = fold (GenGLData_triangle (the triVerts) (the texIndices) (the triTexCoords)) tris
                  (GenGLData_init junkf junki nTri nm (the texMapNames) cnt)"
  have "gen_inv (3 * 0) (unat nTri) (GenGLData_init junkf junki nTri nm (the texMapNames) cnt)"
    by (simp add: gen_inv_def init_fields gld_separated_def)
  then have "gen_inv (3 * (0 + length tris)) (unat nTri) s"
    unfolding s_def by (rule fold_triangle_inv) (simp add: tris_def)
  then have len: "length (vertCoords s) = 9 * unat nTri" "length (texCoords s) = 6 * unat nTri"
    and n: "unat (nVertices s) \<le> 3 * unat nTri"
    and sep: "gld_separated (vertCoords s) (texCoords s) (unat (nVertices s))"
    by (simp_all add: gen_inv_def tris_def)
  have "gld_entry (vertCoords g) (texCoords g) i = gld_entry (vertCoords s) (texCoords s) i"
    if "i < unat (nVertices s)" for i
    unfolding g s_def [symmetric] using that n
    by (simp add: GLData.truncate_def trim_fields gld_entry_realloc len)
  moreover have "nVertices g = nVertices s"
    unfolding g s_def [symmetric] by (simp add: GLData.truncate_def trim_fields)
  ultimately show ?thesis
    using sep by (simp add: gld_separated_def)
qed

lemma GenGLData_count_Some:
  "\<forall>i \<in> set is. tx (unat i) < nm \<Longrightarrow> \<exists>c'. GenGLData_count tx nm is c = Some c'"
  by (induction "is" arbitrary: c) (auto simp add: Let_def not_le [symmetric])

lemma GenGLData_Some:
  assumes "nTri \<noteq> 0" "nm \<noteq> 0" "\<forall>i < unat nTri. tx i < nm"
  shows "\<exists>g. GenGLData junkf junki nTri (Some tv) (Some tx) (Some tt) nm (Some names) = Some g"
proof -
  have "unat (word_of_nat i :: Uint32) = i" if "i < unat nTri" for i
    using that by (simp add: le_unat_uoi [of i nTri])
  then have "\<forall>i \<in> set (map word_of_nat [0..<unat nTri] :: Uint32 list). tx (unat i) < nm"
    using assms(3) by auto
  then obtain c' where "GenGLData_count tx nm (map word_of_nat [0..<unat nTri]) (replicate (unat nm) 0) = Some c'"
    using GenGLData_count_Some by blast
  then show ?thesis
    unfolding GenGLData_def using assms(1,2) by (simp add: Let_def)
qed

section \<open>The mesh builder rejects bad input\<close>

lemma GenGLData_count_bad:
  "\<exists>i \<in> set is. texIndices (unat i) \<ge> nm \<Longrightarrow> GenGLData_count texIndices nm is cnt = None"
  by (induction "is" arbitrary: cnt) (auto simp add: Let_def)

text \<open>
  C10. \<open>GenGLData\<close> returns \<open>NULL\<close> whenever \<open>nTri = 0\<close>, \<open>nMaps = 0\<close>, or one of the
  pointers \<open>triVerts\<close>, \<open>texIndices\<close>, \<open>triTexCoords\<close>, \<open>texMapNames\<close> is null.
\<close>

theorem GenGLData_invalid_input:
  "nTri = 0 \<or> nm = 0 \<or> triVerts = None \<or> texIndices = None \<or> triTexCoords = None \<or> texMapNames = None
   \<Longrightarrow> GenGLData junkf junki nTri triVerts texIndices triTexCoords nm texMapNames = None"
  unfolding GenGLData_def by auto

theorem GenGLData_invalid_input_witness:
  "GenGLData 0 0 0 (Some (\<lambda>i. 0)) (Some (\<lambda>i. 0)) (Some (\<lambda>i. 0)) 1 (Some (\<lambda>i. [])) = None
   \<and> GenGLData 0 0 1 (Some (\<lambda>i. 0)) (Some (\<lambda>i. 0)) (Some (\<lambda>i. 0)) 0 (Some (\<lambda>i. [])) = None
   \<and> GenGLData 0 0 1 None (Some (\<lambda>i. 0)) (Some (\<lambda>i. 0)) 1 (Some (\<lambda>i. [])) = None
   \<and> GenGLData 0 0 1 (Some (\<lambda>i. 0)) None (Some (\<lambda>i. 0)) 1 (Some (\<lambda>i. [])) = None
   \<and> GenGLData 0 0 1 (Some (\<lambda>i. 0)) (Some (\<lambda>i. 0)) None 1 (Some (\<lambda>i. [])) = None
   \<and> GenGLData 0 0 1 (Some (\<lambda>i. 0)) (Some (\<lambda>i. 0)) (Some (\<lambda>i. 0)) 1 None = None"
  by (intro conjI; rule GenGLData_invalid_input; simp)

text \<open>
  C9. When the texture index of some triangle \<open>i < nTri\<close> is greater than or equal to
  \<open>nMaps\<close>, \<open>GenGLData\<close> returns \<open>NULL\<close>.
\<close>

theorem GenGLData_bad_texture_index:
  assumes "i < unat nTri" and "tx i \<ge> nm"
  shows "GenGLData junkf junki nTri triVerts (Some tx) triTexCoords nm texMapNames = None"
proof -
  have "unat (word_of_nat i :: Uint32) = i"
    using assms(1) by (simp add: le_unat_uoi [of i nTri])
  moreover have "(word_of_nat i :: Uint32) \<in> set (map word_of_nat [0..<unat nTri])"
    using assms(1) by simp
  ultimately have "\<exists>j \<in> set (map word_of_nat [0..<unat nTri] :: Uint32 list). tx (unat j) \<ge> nm"
    using assms(2) by metis
  then have "GenGLData_count tx nm (map word_of_nat [0..<unat nTri]) (replicate (unat nm) 0) = None"
    by (rule GenGLData_count_bad)
  then show ?thesis
    unfolding GenGLData_def by (simp add: Let_def)
qed

theorem GenGLData_bad_texture_index_witness:
  "(1::nat) < unat (2 :: Uint32) \<and> (if (1::nat) = 1 then 3 else 0) \<ge> (3 :: Uint16)
   \<and> GenGLData 0 0 2 (Some (\<lambda>i. 0)) (Some (\<lambda>i. if i = 1 then 3 else 0)) (Some (\<lambda>i. 0)) 3
         (Some (\<lambda>i. [])) = None"
  using GenGLData_bad_texture_index [where i = 1 and nTri = 2 and tx = "\<lambda>i. if i = 1 then 3 else 0"
      and nm = 3 and junkf = 0 and junki = 0 and triVerts = "Some (\<lambda>i. 0)"
      and triTexCoords = "Some (\<lambda>i. 0)" and texMapNames = "Some (\<lambda>i. [])"]
  by simp

section \<open>Saving and loading a mesh\<close>

lemma rd_name_loop_long:
  "0 \<notin> set n \<Longrightarrow> 0 \<notin> set acc \<Longrightarrow> j = length acc \<Longrightarrow> j \<le> 255 \<Longrightarrow> 256 \<le> j + length n \<Longrightarrow>
   rd_name_loop j acc (n @ r) = Some (take 255 (acc @ n), drop (256 - j) n @ r)"
proof (induction n arbitrary: j acc)
  case Nil
  then show ?case by simp
next
  case (Cons b n)
  show ?case
  proof (cases "j < 255")
    case True
    have "rd_name_loop (j + 1) (acc @ [b]) (n @ r) = Some (take 255 ((acc @ [b]) @ n), drop (256 - (j + 1)) n @ r)"
      using Cons.prems True by (intro Cons.IH) auto
    moreover have "drop (256 - j) (b # n) = drop (256 - (j + 1)) n"
      using True by (simp add: drop_Cons')
    ultimately show ?thesis using Cons.prems True by simp
  next
    case False
    then have j: "j = 255" using Cons.prems by simp
    then show ?thesis using Cons.prems by (simp add: c_str_id)
  qed
qed

lemma length_c_str: "length (c_str n) \<le> length n"
  unfolding c_str_def by (rule length_takeWhile_le)

lemma rd_array_Suc_hd:
  "rd_array (Suc k) rd bs = Some (xs, r) \<Longrightarrow> rd bs = Some (x, r') \<Longrightarrow> xs ! 0 = x"
  by (auto split: option.splits prod.splits)

lemma LoadGLData_long_name:
  assumes nm: "1 \<le> unat (nMaps g)" and long: "256 \<le> length (c_str (mapNames g ! 0))"
  shows "LoadGLData (Some (SaveGLData (Some g))) \<noteq> Loaded g"
proof
  assume eq: "LoadGLData (Some (SaveGLData (Some g))) = Loaded g"
  obtain k where k: "unat (nMaps g) = Suc k"
    using nm by (cases "unat (nMaps g)") auto
  define name where "name = c_str (mapNames g ! 0)"
  define tl where "tl = concat (map (\<lambda>i. c_str (mapNames g ! i) @ [0]) [1..<Suc k]) @
          concat (map le32 (take (unat (nMaps g)) (mapTriNums g))) @
          le16 (nVertices g) @
          concat (map le32 (take (3 * unat (nVertices g)) (vertCoords g))) @
          concat (map le32 (take (2 * unat (nVertices g)) (texCoords g))) @
          le32 (minX g) @ le32 (maxX g) @ le32 (minY g) @ le32 (maxY g) @ le32 (minZ g) @ le32 (maxZ g) @
          le32 (numTri g) @
          concat (map (\<lambda>i. concat (map le16 (take (unat (3 * mapTriNums g ! i)) (triFaces g ! i))))
                   [0..<unat (nMaps g)])"
  have bytes: "drop 5 (SaveGLData (Some g)) = le16 (nMaps g) @ name @ 0 # tl"
    by (simp add: SaveGLData_def GLD_FILE_MAGIC_def k upt_conv_Cons name_def tl_def del: upt_Suc)
  have rn: "rd_name (name @ 0 # tl) = Some (take 255 name, drop 256 name @ 0 # tl)"
    unfolding rd_name_def
    using rd_name_loop_long [of name "[]" 0 "0 # tl"] long by (simp add: name_def c_str_no_nul)
  obtain g' r where body: "LoadGLData_body (le16 (nMaps g) @ name @ 0 # tl) = Some (g', r)" and g': "g' = g"
    using eq unfolding LoadGLData_def bytes [symmetric]
    by (auto split: if_splits option.splits)
  obtain names r' where ra: "rd_array (Suc k) rd_name (name @ 0 # tl) = Some (names, r')"
    and mn: "mapNames g' = names"
    using body unfolding LoadGLData_body_def
    by (auto simp add: rd_u16_le16 k split: Option.bind_splits)
  have "mapNames g' ! 0 = take 255 name"
    unfolding mn using ra rn by (rule rd_array_Suc_hd)
  then have "length (mapNames g ! 0) \<le> 255"
    using g' by (metis length_take min.cobounded2)
  then show False
    using long length_c_str [of "mapNames g ! 0"] by simp
qed

lemma GenGLData_names:
  assumes "GenGLData junkf junki nTri triVerts texIndices triTexCoords nm texMapNames = Some g"
  shows "nMaps g = nm" "mapNames g = map (\<lambda>i. c_str (the texMapNames i)) [0..<unat nm]"
proof -
  obtain cnt where g: "g = GLData.truncate (GenGLData_trim junkf junki
               (fold (GenGLData_triangle (the triVerts) (the texIndices) (the triTexCoords))
                  (map word_of_nat [0..<unat nTri])
                  (GenGLData_init junkf junki nTri nm (the texMapNames) cnt)))"
    using GenGLData_SomeD [OF assms] by blast
  show "nMaps g = nm" "mapNames g = map (\<lambda>i. c_str (the texMapNames i)) [0..<unat nm]"
    unfolding g by (simp_all add: GLData.truncate_def trim_fields fold_triangle_frame init_fields)
qed

text \<open>
  C7. For every mesh \<open>g\<close> that \<open>GenGLData\<close> returns from texture names of at most 255
  bytes each (the invariant of the specification on texture names), loading the bytes that \<open>SaveGLData\<close> writes for \<open>g\<close> gives \<open>g\<close>
  again: the same \<open>nMaps\<close>, names, \<open>mapTriNums\<close>, \<open>nVertices\<close>, the same bit patterns in the
  vertex and texture coordinate tables and in the bounds, the same \<open>numTri\<close> and the same
  index arrays.
\<close>

theorem GLData_save_load_roundtrip:
  assumes "GenGLData junkf junki nTri triVerts texIndices triTexCoords nm texMapNames = Some g"
    and "\<forall>i < unat nm. length (c_str (the texMapNames i)) \<le> 255"
  shows "LoadGLData (Some (SaveGLData (Some g))) = Loaded g"
  using assms by (intro LoadGLData_SaveGLData GenGLData_wf)

theorem GLData_save_load_roundtrip_witness:
  "length (c_str (short_names 0)) \<le> 255 \<and>
   GenGLData 0 0 1 (Some one_tri_verts) (Some one_tri_tex_indices) (Some one_tri_tex_coords) 1 (Some short_names) \<noteq> None \<and>
   LoadGLData (Some (SaveGLData
     (GenGLData 0 0 1 (Some one_tri_verts) (Some one_tri_tex_indices) (Some one_tri_tex_coords) 1 (Some short_names))))
   = Loaded (the
     (GenGLData 0 0 1 (Some one_tri_verts) (Some one_tri_tex_indices) (Some one_tri_tex_coords) 1 (Some short_names)))"
proof -
  obtain g where g: "GenGLData 0 0 1 (Some one_tri_verts) (Some one_tri_tex_indices) (Some one_tri_tex_coords) 1
      (Some short_names) = Some g"
    using GenGLData_Some [of 1 1 one_tri_tex_indices 0 0 one_tri_verts one_tri_tex_coords short_names]
    by (auto simp add: one_tri_tex_indices_def)
  have n: "\<forall>i < unat (1 :: Uint16). length (c_str (the (Some short_names) i)) \<le> 255"
    by (simp add: short_names_def c_str_def)
  show ?thesis
    using GLData_save_load_roundtrip [OF g n] by (simp add: g short_names_def c_str_def)
qed

text \<open>
  The hypothesis on the names is the limit of the file format: \<open>LoadGLData\<close> reads a name
  into a buffer of 256 bytes and keeps 255 of them, so a name of 256 bytes, which no caller
  of \<open>GenGLData\<close> produces, is not read back as it was written.
\<close>

lemma LoadGLData_name_of_256_bytes:
  "GenGLData 0 0 1 (Some one_tri_verts) (Some one_tri_tex_indices) (Some one_tri_tex_coords) 1 (Some long_names) \<noteq> None \<and>
   LoadGLData (Some (SaveGLData
     (GenGLData 0 0 1 (Some one_tri_verts) (Some one_tri_tex_indices) (Some one_tri_tex_coords) 1 (Some long_names))))
   \<noteq> Loaded (the
     (GenGLData 0 0 1 (Some one_tri_verts) (Some one_tri_tex_indices) (Some one_tri_tex_coords) 1 (Some long_names)))"
proof -
  obtain g where g: "GenGLData 0 0 1 (Some one_tri_verts) (Some one_tri_tex_indices) (Some one_tri_tex_coords) 1
      (Some long_names) = Some g"
    using GenGLData_Some [of 1 1 one_tri_tex_indices 0 0 one_tri_verts one_tri_tex_coords long_names]
    by (auto simp add: one_tri_tex_indices_def)
  have "c_str (replicate 256 (0x61 :: Uint8)) = replicate 256 0x61"
    by (rule c_str_id) simp
  then have "1 \<le> unat (nMaps g)" "256 \<le> length (c_str (mapNames g ! 0))"
    using GenGLData_names [OF g] by (simp_all add: long_names_def)
  then have "LoadGLData (Some (SaveGLData (Some g))) \<noteq> Loaded g"
    by (rule LoadGLData_long_name)
  then show ?thesis by (simp add: g)
qed

section \<open>The intersector on a zero-length segment\<close>

text \<open>
  C8. For every mesh and every two points \<open>F\<close> and \<open>T\<close> whose difference \<open>T - F\<close> is the zero
  vector, \<open>hasCollision\<close> returns true, and it returns before the loops: no triangle of the
  mesh is tested (and \<open>*dist\<close> is left at \<open>FLT_MAX\<close>). The float conversion \<open>rnd\<close> is any
  function that takes 0 to a zero.
\<close>

theorem hasCollision_zero_vector:
  assumes "fval (toPt ! 0) - fval (fromPt ! 0) = 0" and "fval (toPt ! 1) - fval (fromPt ! 1) = 0"
    and "fval (toPt ! 2) - fval (fromPt ! 2) = 0" and "fval (rnd 0) = 0"
  shows "hasCollision rnd model fromPt toPt = (True, FLT_MAX, 0)"
  unfolding hasCollision_def using assms by (simp add: Let_def)

theorem hasCollision_zero_vector_witness:
  "fval (rnd_zero 0) = 0 \<and>
   hasCollision rnd_zero one_tri_mesh [0x3F800000, 0, 0x3F800000] [0x3F800000, 0, 0x3F800000] = (True, FLT_MAX, 0)"
  using hasCollision_zero_vector [of "[0x3F800000, 0, 0x3F800000]" "[0x3F800000, 0, 0x3F800000]" rnd_zero one_tri_mesh]
  by (simp add: rnd_zero_def fval_def)

section \<open>The rings of SplitTri\<close>

lemma SplitTri_vertex_counts:
  "numFrontVerts (SplitTri_vertex rnd aTri p vt r i) =
     numFrontVerts r + (if vt ! i = BELOW_PLANE then 0 else 1) + (if crosses vt i then 1 else 0)"
  "numBackVerts (SplitTri_vertex rnd aTri p vt r i) =
     numBackVerts r + (if vt ! i = ABOVE_PLANE then 0 else 1) + (if crosses vt i then 1 else 0)"
  by (cases "vt ! i"; simp add: SplitTri_vertex_def Let_def crosses_def split: prod.splits)+

lemma SplitTri_rings_counts:
  "numFrontVerts (SplitTri_rings rnd junk aTri p) =
     (let vt = [ClassifyPoint (V aTri ! 0) p, ClassifyPoint (V aTri ! 1) p, ClassifyPoint (V aTri ! 2) p] in
      (if vt ! 0 = BELOW_PLANE then 0 else 1) + (if crosses vt 0 then 1 else 0) +
      (if vt ! 1 = BELOW_PLANE then 0 else 1) + (if crosses vt 1 then 1 else 0) +
      (if vt ! 2 = BELOW_PLANE then 0 else 1) + (if crosses vt 2 then 1 else 0))"
  "numBackVerts (SplitTri_rings rnd junk aTri p) =
     (let vt = [ClassifyPoint (V aTri ! 0) p, ClassifyPoint (V aTri ! 1) p, ClassifyPoint (V aTri ! 2) p] in
      (if vt ! 0 = ABOVE_PLANE then 0 else 1) + (if crosses vt 0 then 1 else 0) +
      (if vt ! 1 = ABOVE_PLANE then 0 else 1) + (if crosses vt 1 then 1 else 0) +
      (if vt ! 2 = ABOVE_PLANE then 0 else 1) + (if crosses vt 2 then 1 else 0))"
  unfolding SplitTri_rings_def Let_def foldl.simps SplitTri_vertex_counts
  by simp_all

lemma ClassifyTri_cases:
  "ClassifyTri aTri p =
     (let c0 = ClassifyPoint (V aTri ! 0) p; c1 = ClassifyPoint (V aTri ! 1) p; c2 = ClassifyPoint (V aTri ! 2) p;
          on = (\<lambda>c. if c = ON_PLANE then 1 else 0 :: nat);
          ab = (\<lambda>c. if c = ABOVE_PLANE then 1 else 0 :: nat);
          be = (\<lambda>c. if c = BELOW_PLANE then 1 else 0 :: nat);
          vOnPlane = on c0 + on c1 + on c2; vAbove = ab c0 + ab c1 + ab c2; vBelow = be c0 + be c1 + be c2
      in if vOnPlane = 3 then COINCIDENT
      else if vAbove + vOnPlane = 3 then IN_FRONT
      else if vBelow + vOnPlane = 3 then IN_BACK
      else SPANNING)"
  unfolding ClassifyTri_def ClassifyTri_count_def Let_def
  by (cases "ClassifyPoint (V aTri ! 0) p"; cases "ClassifyPoint (V aTri ! 1) p"; cases "ClassifyPoint (V aTri ! 2) p"; simp)

text \<open>
  C3. For every triangle that \<open>ClassifyTri\<close> finds \<open>SPANNING\<close> against a plane \<open>p\<close>, the walk
  over the three edges in \<open>SplitTri\<close> ends with at least 3 and at most 4 vertices in the
  front ring and in the back ring, so \<open>SplitTri\<close> takes neither of its two fatal branches:
  the one for fewer than 3 vertices on a side and the one for more than 4.
\<close>

theorem SplitTri_spanning_rings:
  assumes "ClassifyTri aTri p = SPANNING"
  shows "3 \<le> numFrontVerts (SplitTri_rings rnd junk aTri p) \<and> numFrontVerts (SplitTri_rings rnd junk aTri p) \<le> 4 \<and>
         3 \<le> numBackVerts (SplitTri_rings rnd junk aTri p) \<and> numBackVerts (SplitTri_rings rnd junk aTri p) \<le> 4 \<and>
         SplitTri rnd junk aTri p \<noteq> Inl NonSpanning \<and> SplitTri rnd junk aTri p \<noteq> Inl TooManyVertices"
proof -
  have "3 \<le> numFrontVerts (SplitTri_rings rnd junk aTri p) \<and> numFrontVerts (SplitTri_rings rnd junk aTri p) \<le> 4 \<and>
         3 \<le> numBackVerts (SplitTri_rings rnd junk aTri p) \<and> numBackVerts (SplitTri_rings rnd junk aTri p) \<le> 4"
    using assms unfolding ClassifyTri_cases SplitTri_rings_counts Let_def crosses_def
    by (cases "ClassifyPoint (V aTri ! 0) p"; cases "ClassifyPoint (V aTri ! 1) p"; cases "ClassifyPoint (V aTri ! 2) p"; simp)
  then show ?thesis
    by (simp add: SplitTri_def Let_def)
qed

theorem SplitTri_spanning_rings_witness:
  "ClassifyTri span_tri plane_z0 = SPANNING \<and>
   3 \<le> numFrontVerts (SplitTri_rings rnd_zero 0 span_tri plane_z0) \<and>
   numFrontVerts (SplitTri_rings rnd_zero 0 span_tri plane_z0) \<le> 4 \<and>
   3 \<le> numBackVerts (SplitTri_rings rnd_zero 0 span_tri plane_z0) \<and>
   numBackVerts (SplitTri_rings rnd_zero 0 span_tri plane_z0) \<le> 4 \<and>
   SplitTri rnd_zero 0 span_tri plane_z0 \<noteq> Inl NonSpanning \<and>
   SplitTri rnd_zero 0 span_tri plane_z0 \<noteq> Inl TooManyVertices"
proof -
  have "ClassifyPoint (V span_tri ! 0) plane_z0 = BELOW_PLANE"
    by (simp add: ClassifyPoint_def span_tri_def plane_z0_def fval_def PLANE_THICKNESS_def)
  moreover have "ClassifyPoint (V span_tri ! 1) plane_z0 = ABOVE_PLANE"
    by (simp add: ClassifyPoint_def span_tri_def plane_z0_def fval_def PLANE_THICKNESS_def)
  moreover have "ClassifyPoint (V span_tri ! 2) plane_z0 = ON_PLANE"
    by (simp add: ClassifyPoint_def span_tri_def plane_z0_def fval_def PLANE_THICKNESS_def)
  ultimately have "ClassifyTri span_tri plane_z0 = SPANNING"
    by (simp add: ClassifyTri_cases)
  then show ?thesis
    using SplitTri_spanning_rings [of span_tri plane_z0 rnd_zero 0] by blast
qed

section \<open>The choice of the next root\<close>

lemma count_step:
  "SelectNextRoot_count ts c (s, f, b, n) j =
     (s + word_of_nat (others_of_type ts c SPANNING [j]), f + word_of_nat (others_of_type ts c IN_FRONT [j]),
      b + word_of_nat (others_of_type ts c IN_BACK [j]), n + word_of_nat (others_of_type ts c COINCIDENT [j]))"
  by (cases "ClassifyTri (ts ! j) (plane (ts ! c))")
     (simp_all add: SelectNextRoot_count_def others_of_type_def)

lemma others_Cons:
  "others_of_type ts c ty (j # js) = others_of_type ts c ty [j] + others_of_type ts c ty js"
  by (simp add: others_of_type_def)

lemma count_foldl:
  "foldl (SelectNextRoot_count ts c) (s, f, b, n) js =
     (s + word_of_nat (others_of_type ts c SPANNING js), f + word_of_nat (others_of_type ts c IN_FRONT js),
      b + word_of_nat (others_of_type ts c IN_BACK js), n + word_of_nat (others_of_type ts c COINCIDENT js))"
proof (induction js arbitrary: s f b n)
  case Nil
  then show ?case by (simp add: others_of_type_def)
next
  case (Cons j js)
  show ?case
    unfolding foldl_Cons count_step Cons.IH others_Cons [of ts c _ j js]
    by (simp add: add.assoc)
qed

lemma others_sum_le:
  "others_of_type ts c SPANNING js + others_of_type ts c IN_FRONT js + others_of_type ts c IN_BACK js \<le> length js"
proof (induction js)
  case Nil
  then show ?case by (simp add: others_of_type_def)
next
  case (Cons j js)
  then show ?case
    by (cases "ClassifyTri (ts ! j) (plane (ts ! c))") (auto simp add: others_of_type_def)
qed

lemma score_arith:
  fixes s f b :: nat
  assumes "s + f + b < 2 ^ 31"
  shows "unat ((word_of_nat s :: Uint32) + word_of_int \<bar>sint ((word_of_nat f :: Uint32) - word_of_nat b)\<bar>)
     = s + nat \<bar>int f - int b\<bar>"
proof -
  define m where "m = nat \<bar>int f - int b\<bar>"
  have m: "\<bar>int f - int b\<bar> = int m" by (simp add: m_def)
  have d: "(word_of_nat f :: Uint32) - word_of_nat b = word_of_int (int f - int b)"
    by simp
  have r: "- (2 ^ 31) \<le> int f - int b" "int f - int b < 2 ^ 31"
    using assms by simp_all
  have "(int f - int b + 2 ^ 31) mod 2 ^ 32 = int f - int b + 2 ^ 31"
    using r by (intro mod_pos_pos_trivial) simp_all
  then have "sint ((word_of_nat f :: Uint32) - word_of_nat b) = int f - int b"
    unfolding d int_word_sint by simp
  then have "(word_of_int \<bar>sint ((word_of_nat f :: Uint32) - word_of_nat b)\<bar> :: Uint32) = word_of_int (int m)"
    by (simp only: m)
  also have "\<dots> = word_of_nat m"
    by simp
  finally have e: "(word_of_nat s :: Uint32) + word_of_int \<bar>sint ((word_of_nat f :: Uint32) - word_of_nat b)\<bar>
      = word_of_nat (s + m)"
    by (simp only: of_nat_add)
  have "s + m < 2 ^ 32"
    using assms by (simp add: m_def)
  have "unat (word_of_nat (s + m) :: Uint32) = (s + m) mod 2 ^ LENGTH(32)"
    by (rule unat_of_nat)
  also have "\<dots> = s + m"
    using \<open>s + m < 2 ^ 32\<close> by simp
  finally show ?thesis
    unfolding e by (simp only: m_def)
qed

lemma score_eq:
  assumes "length ts < 2 ^ 31"
  shows "unat (SelectNextRoot_score ts c) = root_score ts c"
proof -
  have "others_of_type ts c SPANNING [0..<length ts] + others_of_type ts c IN_FRONT [0..<length ts]
      + others_of_type ts c IN_BACK [0..<length ts] < 2 ^ 31"
    using others_sum_le [of ts c "[0..<length ts]"] assms by simp
  then show ?thesis
    unfolding SelectNextRoot_score_def root_score_def count_foldl Let_def
    by (simp add: score_arith)
qed

lemma scan_postI:
  assumes "k < length cs" "fst r = Some (cs ! k)" "SelectNextRoot_score ts (cs ! k) < ms"
    "\<And>j. j < length cs \<Longrightarrow> SelectNextRoot_score ts (cs ! k) \<le> SelectNextRoot_score ts (cs ! j)"
    "\<And>j. j < k \<Longrightarrow> SelectNextRoot_score ts (cs ! k) < SelectNextRoot_score ts (cs ! j)"
    "snd r = n + (if SelectNextRoot_score ts (cs ! k) = 0 then k + 1 else length cs)"
  shows "scan_post ts cs ms best n r"
proof -
  have "\<exists>c \<in> set cs. SelectNextRoot_score ts c < ms"
    using assms(1,3) nth_mem by blast
  then show ?thesis
    unfolding scan_post_def using assms by (simp only: if_True) blast
qed

lemma scan_postD:
  assumes "scan_post ts cs ms best n r" "\<exists>c \<in> set cs. SelectNextRoot_score ts c < ms"
  obtains k where "k < length cs" "fst r = Some (cs ! k)" "SelectNextRoot_score ts (cs ! k) < ms"
    "\<forall>j < length cs. SelectNextRoot_score ts (cs ! k) \<le> SelectNextRoot_score ts (cs ! j)"
    "\<forall>j < k. SelectNextRoot_score ts (cs ! k) < SelectNextRoot_score ts (cs ! j)"
    "snd r = n + (if SelectNextRoot_score ts (cs ! k) = 0 then k + 1 else length cs)"
  using assms unfolding scan_post_def by (simp only: if_True) blast

lemma scan_postD_none:
  assumes "scan_post ts cs ms best n r" "\<not> (\<exists>c \<in> set cs. SelectNextRoot_score ts c < ms)"
  shows "fst r = best" "snd r = n + length cs"
  using assms unfolding scan_post_def by (simp_all only: if_False)

lemma scan_spec:
  assumes "ms \<noteq> 0"
  shows "scan_post ts cs ms best n (SelectNextRoot_scan ts cs ms best n)"
  using assms
proof (induction cs arbitrary: ms best n)
  case Nil
  then show ?case by (simp add: scan_post_def)
next
  case (Cons c rest)
  let ?sc = "SelectNextRoot_score ts"
  show ?case
  proof (cases "?sc c < ms")
    case better: True
    show ?thesis
    proof (cases "?sc c = 0")
      case True
      then have step: "SelectNextRoot_scan ts (c # rest) ms best n = (Some c, n + 1)"
        using better by (simp add: Let_def)
      show ?thesis
        unfolding step using better True by (intro scan_postI [of 0]) simp_all
    next
      case False
      then have step: "SelectNextRoot_scan ts (c # rest) ms best n
          = SelectNextRoot_scan ts rest (?sc c) (Some c) (n + 1)"
        using better by (simp add: Let_def)
      define r where "r = SelectNextRoot_scan ts rest (?sc c) (Some c) (n + 1)"
      have IH: "scan_post ts rest (?sc c) (Some c) (n + 1) r"
        unfolding r_def using False by (rule Cons.IH)
      show ?thesis
        unfolding step r_def [symmetric]
      proof (cases "\<exists>c' \<in> set rest. ?sc c' < ?sc c")
        case True
        from scan_postD [OF IH True]
        obtain k where k: "k < length rest" "fst r = Some (rest ! k)" "?sc (rest ! k) < ?sc c"
          "\<forall>j < length rest. ?sc (rest ! k) \<le> ?sc (rest ! j)"
          "\<forall>j < k. ?sc (rest ! k) < ?sc (rest ! j)"
          "snd r = n + 1 + (if ?sc (rest ! k) = 0 then k + 1 else length rest)"
          by blast
        show "scan_post ts (c # rest) ms best n r"
        proof (rule scan_postI [of "Suc k"])
          show "Suc k < length (c # rest)" using k(1) by simp
          show "fst r = Some ((c # rest) ! Suc k)" using k(2) by simp
          show "?sc ((c # rest) ! Suc k) < ms" using k(3) better by simp
          show "?sc ((c # rest) ! Suc k) \<le> ?sc ((c # rest) ! j)" if "j < length (c # rest)" for j
            using that k(3,4) by (cases j) auto
          show "?sc ((c # rest) ! Suc k) < ?sc ((c # rest) ! j)" if "j < Suc k" for j
            using that k(3,5) by (cases j) auto
          show "snd r = n + (if ?sc ((c # rest) ! Suc k) = 0 then Suc k + 1 else length (c # rest))"
            using k(6) by simp
        qed
      next
        case none: False
        have r: "fst r = Some c" "snd r = n + 1 + length rest"
          using scan_postD_none [OF IH none] by simp_all
        show "scan_post ts (c # rest) ms best n r"
        proof (rule scan_postI [of 0])
          show "?sc ((c # rest) ! 0) \<le> ?sc ((c # rest) ! j)" if "j < length (c # rest)" for j
            using that none by (cases j) (auto simp add: not_less)
        qed (use r better False in simp_all)
      qed
    qed
  next
    case worse: False
    have nz: "?sc c \<noteq> 0"
      using worse Cons.prems by (metis word_gt_0)
    then have step: "SelectNextRoot_scan ts (c # rest) ms best n = SelectNextRoot_scan ts rest ms best (n + 1)"
      using worse by (simp add: Let_def)
    define r where "r = SelectNextRoot_scan ts rest ms best (n + 1)"
    have IH: "scan_post ts rest ms best (n + 1) r"
      unfolding r_def using Cons.prems by (rule Cons.IH)
    show ?thesis
      unfolding step r_def [symmetric]
    proof (cases "\<exists>c' \<in> set rest. ?sc c' < ms")
      case True
      from scan_postD [OF IH True]
      obtain k where k: "k < length rest" "fst r = Some (rest ! k)" "?sc (rest ! k) < ms"
          "\<forall>j < length rest. ?sc (rest ! k) \<le> ?sc (rest ! j)"
          "\<forall>j < k. ?sc (rest ! k) < ?sc (rest ! j)"
          "snd r = n + 1 + (if ?sc (rest ! k) = 0 then k + 1 else length rest)"
        by blast
      have lt: "?sc (rest ! k) < ?sc c" using k(3) worse by simp
      show "scan_post ts (c # rest) ms best n r"
      proof (rule scan_postI [of "Suc k"])
        show "Suc k < length (c # rest)" using k(1) by simp
        show "fst r = Some ((c # rest) ! Suc k)" using k(2) by simp
        show "?sc ((c # rest) ! Suc k) < ms" using k(3) by simp
        show "?sc ((c # rest) ! Suc k) \<le> ?sc ((c # rest) ! j)" if "j < length (c # rest)" for j
          using that lt k(4) by (cases j) auto
        show "?sc ((c # rest) ! Suc k) < ?sc ((c # rest) ! j)" if "j < Suc k" for j
          using that lt k(5) by (cases j) auto
        show "snd r = n + (if ?sc ((c # rest) ! Suc k) = 0 then Suc k + 1 else length (c # rest))"
          using k(6) by simp
      qed
    next
      case False
      have r: "fst r = best" "snd r = n + 1 + length rest"
        using scan_postD_none [OF IH False] by simp_all
      have "\<not> (\<exists>c' \<in> set (c # rest). ?sc c' < ms)"
        using False worse by simp
      then show "scan_post ts (c # rest) ms best n r"
        unfolding scan_post_def using r by (simp only: if_False) simp
    qed
  qed
qed

lemma root_score_le:
  "root_score ts c \<le> length ts"
proof -
  define s where "s = others_of_type ts c SPANNING [0..<length ts]"
  define f where "f = others_of_type ts c IN_FRONT [0..<length ts]"
  define b where "b = others_of_type ts c IN_BACK [0..<length ts]"
  have "s + f + b \<le> length [0..<length ts]"
    unfolding s_def f_def b_def by (rule others_sum_le)
  then have "s + f + b \<le> length ts"
    by (simp only: length_upt diff_zero)
  moreover have "nat \<bar>int f - int b\<bar> \<le> f + b"
    by arith
  ultimately have "s + nat \<bar>int f - int b\<bar> \<le> length ts"
    by linarith
  then show ?thesis
    unfolding root_score_def Let_def s_def f_def b_def .
qed

lemma score_below_max:
  assumes "length ts < 2 ^ 31"
  shows "SelectNextRoot_score ts c < UINT_MAX"
proof -
  have "unat (SelectNextRoot_score ts c) \<le> length ts"
    unfolding score_eq [OF assms] by (rule root_score_le)
  moreover have "(2 :: nat) ^ 31 = 2147483648"
    by simp
  ultimately have "unat (SelectNextRoot_score ts c) < 4294967295"
    using assms by linarith
  moreover have "unat UINT_MAX = 4294967295"
    unfolding UINT_MAX_def by simp
  ultimately show ?thesis
    by (simp only: word_less_nat_alt)
qed

lemma scan_all:
  assumes "ts \<noteq> []" and "length ts < 2 ^ 31"
  shows "\<exists>k < length ts.
     SelectNextRoot_scan ts [0..<length ts] UINT_MAX None 0
        = (Some k, if SelectNextRoot_score ts k = 0 then k + 1 else length ts) \<and>
     (\<forall>j < length ts. SelectNextRoot_score ts k \<le> SelectNextRoot_score ts j) \<and>
     (\<forall>j < k. SelectNextRoot_score ts k < SelectNextRoot_score ts j)"
proof -
  let ?sc = "SelectNextRoot_score ts"
  let ?cs = "[0..<length ts]"
  define r where "r = SelectNextRoot_scan ts ?cs UINT_MAX None 0"
  have len: "length ?cs = length ts"
    by (simp only: length_upt diff_zero)
  have nth: "?cs ! j = j" if "j < length ts" for j
    using that by (simp only: nth_upt add_0)
  have "UINT_MAX \<noteq> 0"
    unfolding UINT_MAX_def by simp
  then have post: "scan_post ts ?cs UINT_MAX None 0 r"
    unfolding r_def by (rule scan_spec)
  have "0 < length ts"
    using assms(1) by (cases ts) simp_all
  then have "0 < length ?cs"
    unfolding len .
  then have "?cs ! 0 \<in> set ?cs"
    by (rule nth_mem)
  moreover have "?sc (?cs ! 0) < UINT_MAX"
    using assms(2) by (rule score_below_max)
  ultimately have ex: "\<exists>c \<in> set ?cs. ?sc c < UINT_MAX"
    by (rule bexI [rotated])
  have "\<exists>k < length ?cs. fst r = Some (?cs ! k) \<and> ?sc (?cs ! k) < UINT_MAX \<and>
      (\<forall>j < length ?cs. ?sc (?cs ! k) \<le> ?sc (?cs ! j)) \<and>
      (\<forall>j < k. ?sc (?cs ! k) < ?sc (?cs ! j)) \<and>
      snd r = 0 + (if ?sc (?cs ! k) = 0 then k + 1 else length ?cs)"
    using post ex unfolding scan_post_def by (simp only: if_True)
  then obtain k where k1: "k < length ?cs" and k2: "fst r = Some (?cs ! k)"
    and k3: "\<forall>j < length ?cs. ?sc (?cs ! k) \<le> ?sc (?cs ! j)"
    and k4: "\<forall>j < k. ?sc (?cs ! k) < ?sc (?cs ! j)"
    and k5: "snd r = 0 + (if ?sc (?cs ! k) = 0 then k + 1 else length ?cs)"
    by blast
  have kl: "k < length ts"
    using k1 unfolding len .
  have nk: "?cs ! k = k"
    using kl by (rule nth)
  have "r = (fst r, snd r)"
    by (rule prod.collapse [symmetric])
  then have r: "r = (Some k, if ?sc k = 0 then k + 1 else length ts)"
    unfolding k2 k5 nk len by (simp only: add_0)
  have le: "\<forall>j < length ts. ?sc k \<le> ?sc j"
  proof (intro allI impI)
    fix j
    assume j: "j < length ts"
    then have "j < length ?cs"
      unfolding len .
    with k3 have "?sc (?cs ! k) \<le> ?sc (?cs ! j)"
      by blast
    then show "?sc k \<le> ?sc j"
      unfolding nk nth [OF j] .
  qed
  have less: "\<forall>j < k. ?sc k < ?sc j"
  proof (intro allI impI)
    fix j
    assume j: "j < k"
    then have jl: "j < length ts"
      using kl by (rule less_trans)
    from k4 j have "?sc (?cs ! k) < ?sc (?cs ! j)"
      by blast
    then show "?sc k < ?sc j"
      unfolding nk nth [OF jl] .
  qed
  show ?thesis
    using kl r le less unfolding r_def by blast
qed

text \<open>
  C4. For every non-empty working list (of fewer than \<open>2 ^ 31\<close> triangles, so that the
  \<open>unsigned int\<close> counters and the \<open>int\<close> argument of \<open>abs\<close> hold the counts),
  \<open>SelectNextRoot\<close> gives every candidate the score \<open>splits + |inFront - inBack|\<close> counted
  over the other triangles of the list, stores in \<open>*rootPtr\<close> the candidate \<open>k\<close> of least
  score, the earliest one among those of least score, has scored \<open>k + 1\<close> candidates when
  that score is 0 and all of them otherwise, and returns the list without that triangle.
\<close>

theorem SelectNextRoot_min_score:
  assumes "triList \<noteq> []" and "length triList < 2 ^ 31"
  shows "\<exists>k < length triList.
     SelectNextRoot triList = (Some (triList ! k), take k triList @ drop (Suc k) triList,
        if root_score triList k = 0 then k + 1 else length triList) \<and>
     (\<forall>j < length triList. unat (SelectNextRoot_score triList j) = root_score triList j) \<and>
     (\<forall>j < length triList. root_score triList k \<le> root_score triList j) \<and>
     (\<forall>j < k. root_score triList k < root_score triList j)"
proof -
  let ?sc = "SelectNextRoot_score triList"
  have sc: "unat (?sc j) = root_score triList j" for j
    using assms(2) by (rule score_eq)
  obtain k where kl: "k < length triList"
    and r: "SelectNextRoot_scan triList [0..<length triList] UINT_MAX None 0
           = (Some k, if ?sc k = 0 then k + 1 else length triList)"
    and le: "\<forall>j < length triList. ?sc k \<le> ?sc j"
    and less: "\<forall>j < k. ?sc k < ?sc j"
    using scan_all [OF assms] by blast
  have z: "?sc k = 0 \<longleftrightarrow> root_score triList k = 0"
    unfolding sc [symmetric] by (simp only: unat_eq_0)
  have rm: "RemoveTriFromList triList (Some k) = take k triList @ drop (Suc k) triList"
    unfolding RemoveTriFromList_def using assms(1) by simp
  have a: "SelectNextRoot triList = (Some (triList ! k), take k triList @ drop (Suc k) triList,
        if root_score triList k = 0 then k + 1 else length triList)"
    unfolding SelectNextRoot_def r Let_def prod.case rm z by (simp only: option.map)
  have b: "\<forall>j < length triList. root_score triList k \<le> root_score triList j"
    using le unfolding word_le_nat_alt sc .
  have c: "\<forall>j < k. root_score triList k < root_score triList j"
    using less unfolding word_less_nat_alt sc .
  have d: "\<forall>j < length triList. unat (?sc j) = root_score triList j"
    using sc by (intro allI impI)
  show ?thesis
    using kl a b c d by (intro exI [of _ k] conjI)
qed

theorem SelectNextRoot_min_score_witness:
  "[flat_tri_z0, flat_tri_z1] \<noteq> [] \<and> length [flat_tri_z0, flat_tri_z1] < 2 ^ 31 \<and>
   (\<exists>k < length [flat_tri_z0, flat_tri_z1].
     SelectNextRoot [flat_tri_z0, flat_tri_z1] =
       (Some ([flat_tri_z0, flat_tri_z1] ! k), take k [flat_tri_z0, flat_tri_z1] @ drop (Suc k) [flat_tri_z0, flat_tri_z1],
        if root_score [flat_tri_z0, flat_tri_z1] k = 0 then k + 1 else length [flat_tri_z0, flat_tri_z1]) \<and>
     (\<forall>j < length [flat_tri_z0, flat_tri_z1].
        unat (SelectNextRoot_score [flat_tri_z0, flat_tri_z1] j) = root_score [flat_tri_z0, flat_tri_z1] j) \<and>
     (\<forall>j < length [flat_tri_z0, flat_tri_z1].
        root_score [flat_tri_z0, flat_tri_z1] k \<le> root_score [flat_tri_z0, flat_tri_z1] j) \<and>
     (\<forall>j < k. root_score [flat_tri_z0, flat_tri_z1] k < root_score [flat_tri_z0, flat_tri_z1] j))"
proof -
  have a: "[flat_tri_z0, flat_tri_z1] \<noteq> []"
    by simp
  have b: "length [flat_tri_z0, flat_tri_z1] < 2 ^ 31"
    by simp
  show ?thesis
    using a b SelectNextRoot_min_score [OF a b] by blast
qed

section \<open>Reading a compiled tree\<close>

lemma rd_bytes_SomeD:
  "rd_bytes n bs = Some (x, r) \<Longrightarrow> x = take n bs \<and> r = drop n bs \<and> n \<le> length bs"
  by (auto simp add: rd_bytes_def split: if_splits)

lemma rd_u16_SomeD:
  "rd_u16 bs = Some (x, r) \<Longrightarrow> x = of_le16 (take 2 bs) \<and> r = drop 2 bs \<and> 2 \<le> length bs"
  by (auto simp add: rd_u16_def dest!: rd_bytes_SomeD)

lemma rd_u8_SomeD:
  "rd_u8 bs = Some (c, r) \<Longrightarrow> bs = c # r"
  by (cases bs) (simp_all add: rd_u8_def)

lemma rd_array_drop:
  assumes "\<And>bs x r. rd bs = Some (x, r) \<Longrightarrow> r = drop k bs \<and> k \<le> length bs"
  shows "rd_array n rd bs = Some (xs, r) \<Longrightarrow> r = drop (k * n) bs \<and> k * n \<le> length bs \<and> length xs = n"
proof (induction n arbitrary: bs xs r)
  case 0
  then show ?case by simp
next
  case (Suc n)
  from Suc.prems obtain x bs' xs' where x: "rd bs = Some (x, bs')"
    and xs: "rd_array n rd bs' = Some (xs', r)" and e: "xs = x # xs'"
    by (auto split: option.splits)
  from assms [OF x] have b: "bs' = drop k bs" "k \<le> length bs"
    by simp_all
  from Suc.IH [OF xs] have "r = drop (k * n) bs'" "k * n \<le> length bs'" "length xs' = n"
    by simp_all
  then show ?case
    using b e by (simp add: add.commute)
qed

lemma rd_face_SomeD:
  assumes "rd_face bs = Some (f, r)"
  shows "r = drop 8 bs \<and> 8 \<le> length bs"
proof -
  from assms obtain t bs1 v where t: "rd_u16 bs = Some (t, bs1)" and v: "rd_array 3 rd_u16 bs1 = Some (v, r)"
    by (auto simp add: rd_face_def split: Option.bind_splits)
  have "r = drop (2 * 3) bs1 \<and> 2 * 3 \<le> length bs1 \<and> length v = 3"
    using v by (rule rd_array_drop [rotated]) (simp add: rd_u16_SomeD)
  then show ?thesis
    using rd_u16_SomeD [OF t] by auto
qed

lemma rd_faces_SomeD:
  assumes "rd_array n rd_face bs = Some (fs, r)"
  shows "r = drop (8 * n) bs \<and> 8 * n \<le> length bs \<and> length fs = n"
  using assms by (rule rd_array_drop [rotated]) (simp add: rd_face_SomeD)

lemma rd_plane_SomeD:
  assumes "rd_plane dec bs = Some (p, r)"
  shows "r = drop 32 bs \<and> 32 \<le> length bs \<and>
     p = \<lparr> A = dec (take 8 bs), B = dec (take 8 (drop 8 bs)), C = dec (take 8 (drop 16 bs)),
           D = dec (take 8 (drop 24 bs)) \<rparr>"
proof -
  from assms obtain b where b: "rd_bytes 32 bs = Some (b, r)"
    and p: "p = \<lparr> A = dec (take 8 b), B = dec (take 8 (drop 8 b)), C = dec (take 8 (drop 16 b)),
             D = dec (take 8 (drop 24 b)) \<rparr>"
    by (auto simp add: rd_plane_def split: Option.bind_splits)
  from rd_bytes_SomeD [OF b] have "b = take 32 bs" "r = drop 32 bs" "32 \<le> length bs"
    by simp_all
  then show ?thesis
    unfolding p by (simp add: drop_take)
qed


lemma drop_eq_ConsD:
  assumes "drop k bs = c # r"
  shows "k < length bs \<and> c = bs ! k \<and> r = drop (Suc k) bs"
proof -
  have k: "k < length bs"
    using assms by (cases "k < length bs") simp_all
  then have "bs ! k # drop (Suc k) bs = c # r"
    using assms by (simp add: Cons_nth_drop_Suc)
  then show ?thesis
    using k by simp
qed

lemma ReadBSPTree_plane_InrD:
  assumes "ReadBSPTree_plane dec vc n tris bs = Inr (p, r)"
  shows "n = 0 \<Longrightarrow> r = drop 32 bs \<and> 32 \<le> length bs \<and>
           p = \<lparr> A = dec (take 8 bs), B = dec (take 8 (drop 8 bs)), C = dec (take 8 (drop 16 bs)),
                 D = dec (take 8 (drop 24 bs)) \<rparr>"
    and "n \<noteq> 0 \<Longrightarrow> r = bs \<and> (\<exists>tv. ReadBSPTree_triVerts vc (tris ! 0) = Some tv \<and> GetPlaneForTri tv = Some p)"
  using assms
  by (auto simp add: ReadBSPTree_plane_def dest: rd_plane_SomeD split: if_splits option.splits)

lemma ReadBSPTree_node_InrD:
  assumes "ReadBSPTree_node dec vc bs = Inr (n, tris, p, c, r)"
  shows "n = of_le16 (take 2 bs)" and "length tris = unat n"
    and "n = 0 \<Longrightarrow> 35 \<le> length bs \<and> c = bs ! 34 \<and> r = drop 35 bs \<and>
           p = \<lparr> A = dec (take 8 (drop 2 bs)), B = dec (take 8 (drop 10 bs)), C = dec (take 8 (drop 18 bs)),
                 D = dec (take 8 (drop 26 bs)) \<rparr>"
    and "n \<noteq> 0 \<Longrightarrow> 8 * unat n + 3 \<le> length bs \<and> c = bs ! (8 * unat n + 2) \<and> r = drop (8 * unat n + 3) bs \<and>
           (\<exists>tv. ReadBSPTree_triVerts vc (tris ! 0) = Some tv \<and> GetPlaneForTri tv = Some p)"
proof -
  from assms obtain bs1 bs2 bs3 where a: "rd_u16 bs = Some (n, bs1)"
    and b: "rd_array (unat n) rd_face bs1 = Some (tris, bs2)"
    and c: "ReadBSPTree_plane dec vc n tris bs2 = Inr (p, bs3)"
    and d: "rd_u8 bs3 = Some (c, r)"
    by (auto simp add: ReadBSPTree_node_def split: option.splits sum.splits)
  have a': "n = of_le16 (take 2 bs)" "bs1 = drop 2 bs" "2 \<le> length bs"
    using rd_u16_SomeD [OF a] by simp_all
  have b': "bs2 = drop (8 * unat n) bs1" "8 * unat n \<le> length bs1" "length tris = unat n"
    using rd_faces_SomeD [OF b] by simp_all
  have d': "bs3 = c # r"
    using d by (rule rd_u8_SomeD)
  show "n = of_le16 (take 2 bs)" "length tris = unat n"
    by fact+
  show "35 \<le> length bs \<and> c = bs ! 34 \<and> r = drop 35 bs \<and>
           p = \<lparr> A = dec (take 8 (drop 2 bs)), B = dec (take 8 (drop 10 bs)), C = dec (take 8 (drop 18 bs)),
                 D = dec (take 8 (drop 26 bs)) \<rparr>" if z: "n = 0"
  proof -
    have bs2: "bs2 = drop 2 bs"
      using b'(1) a'(2) z by simp
    have "drop 34 bs = c # r"
      using ReadBSPTree_plane_InrD(1) [OF c z] d' bs2 by simp
    then have "34 < length bs \<and> c = bs ! 34 \<and> r = drop (Suc 34) bs"
      by (rule drop_eq_ConsD)
    moreover have "p = \<lparr> A = dec (take 8 (drop 2 bs)), B = dec (take 8 (drop 10 bs)), C = dec (take 8 (drop 18 bs)),
                 D = dec (take 8 (drop 26 bs)) \<rparr>"
      using ReadBSPTree_plane_InrD(1) [OF c z] bs2 by simp
    ultimately show ?thesis
      by simp
  qed
  show "8 * unat n + 3 \<le> length bs \<and> c = bs ! (8 * unat n + 2) \<and> r = drop (8 * unat n + 3) bs \<and>
           (\<exists>tv. ReadBSPTree_triVerts vc (tris ! 0) = Some tv \<and> GetPlaneForTri tv = Some p)" if nz: "n \<noteq> 0"
  proof -
    have "drop (8 * unat n + 2) bs = c # r"
      using ReadBSPTree_plane_InrD(2) [OF c nz] d' b'(1) a'(2) by simp
    then have "8 * unat n + 2 < length bs \<and> c = bs ! (8 * unat n + 2) \<and> r = drop (Suc (8 * unat n + 2)) bs"
      by (rule drop_eq_ConsD)
    then show ?thesis
      using ReadBSPTree_plane_InrD(2) [OF c nz] by (simp add: eval_nat_numeral)
  qed
qed

lemma ReadBSPTree_node_shorter:
  assumes "ReadBSPTree_node dec vc bs = Inr (n, tris, p, c, r)"
  shows "length r < length bs"
  using ReadBSPTree_node_InrD(3,4) [OF assms] by (cases "n = 0") auto

lemma ReadBSPTree_fuel:
  "length bs < fuel \<Longrightarrow> ReadBSPTree fuel dec vc bs \<noteq> Inl OutOfFuel \<and>
     (\<forall>t r. ReadBSPTree fuel dec vc bs = Inr (t, r) \<longrightarrow> length r < length bs)"
proof (induction fuel arbitrary: bs)
  case 0
  then show ?case by simp
next
  case (Suc fuel)
  show ?case
  proof (cases "ReadBSPTree_node dec vc bs")
    case (Inl e)
    then have "e \<noteq> OutOfFuel"
      by (auto simp add: ReadBSPTree_node_def ReadBSPTree_plane_def split: option.splits sum.splits if_splits)
    then show ?thesis
      using Inl by simp
  next
    case (Inr x)
    then obtain n tris p c bs1 where node: "ReadBSPTree_node dec vc bs = Inr (n, tris, p, c, bs1)"
      by (cases x) auto
    have l1: "length bs1 < length bs"
      using node by (rule ReadBSPTree_node_shorter)
    then have f1: "length bs1 < fuel"
      using Suc.prems by simp
    show ?thesis
    proof (cases "ReadBSPTree_switch c")
      case (Inl e)
      then have "e \<noteq> OutOfFuel"
        by (auto simp add: ReadBSPTree_switch_def split: if_splits)
      then show ?thesis
        using node Inl by simp
    next
      case (Inr hb)
      then obtain hasBack hasFront where sw: "ReadBSPTree_switch c = Inr (hasBack, hasFront)"
        by (cases hb) auto
      define rb where "rb = (if hasBack
            then (case ReadBSPTree fuel dec vc bs1 of Inl e \<Rightarrow> Inl e | Inr (t, r) \<Rightarrow> Inr (Some t, r))
            else Inr (None, bs1))"
      have rb: "rb \<noteq> Inl OutOfFuel \<and> (\<forall>t r. rb = Inr (t, r) \<longrightarrow> length r \<le> length bs1)"
        using Suc.IH [OF f1] unfolding rb_def by (auto split: sum.splits)
      show ?thesis
      proof (cases rb)
        case (Inl e)
        then show ?thesis
          using node sw rb by (simp add: rb_def [symmetric])
      next
        case (Inr y)
        then obtain bk bs2 where y: "rb = Inr (bk, bs2)"
          by (cases y) auto
        have l2: "length bs2 \<le> length bs1"
          using rb y by blast
        then have f2: "length bs2 < fuel"
          using f1 by simp
        define rf where "rf = (if hasFront
            then (case ReadBSPTree fuel dec vc bs2 of Inl e \<Rightarrow> Inl e | Inr (t, r) \<Rightarrow> Inr (Some t, r))
            else Inr (None, bs2))"
        have rf: "rf \<noteq> Inl OutOfFuel \<and> (\<forall>t r. rf = Inr (t, r) \<longrightarrow> length r \<le> length bs2)"
          using Suc.IH [OF f2] unfolding rf_def by (auto split: sum.splits)
        have "ReadBSPTree (Suc fuel) dec vc bs =
            (case rf of Inl e \<Rightarrow> Inl e | Inr (fr, bs3) \<Rightarrow> Inr (BSPTree n tris p bk fr, bs3))"
          using node sw y by (simp add: rb_def [symmetric] rf_def [symmetric])
        then show ?thesis
          using rf l1 l2 by (auto split: sum.splits)
      qed
    qed
  qed
qed


lemma ReadBSPTree_fuel_indep:
  "length bs < f1 \<Longrightarrow> length bs < f2 \<Longrightarrow> ReadBSPTree f1 dec vc bs = ReadBSPTree f2 dec vc bs"
proof (induction f1 arbitrary: f2 bs)
  case 0
  then show ?case by simp
next
  case (Suc f1)
  from Suc.prems(2) obtain f2' where f2: "f2 = Suc f2'"
    by (cases f2) simp_all
  show ?case
  proof (cases "ReadBSPTree_node dec vc bs")
    case (Inl e)
    then show ?thesis
      unfolding f2 by simp
  next
    case (Inr x)
    then obtain n tris p c bs1 where node: "ReadBSPTree_node dec vc bs = Inr (n, tris, p, c, bs1)"
      by (cases x) auto
    have l1: "length bs1 < length bs"
      using node by (rule ReadBSPTree_node_shorter)
    have a1: "length bs1 < f1" "length bs1 < f2'"
      using l1 Suc.prems f2 by simp_all
    have e1: "ReadBSPTree f1 dec vc bs1 = ReadBSPTree f2' dec vc bs1"
      using a1 by (rule Suc.IH)
    have e2: "ReadBSPTree f1 dec vc bs2 = ReadBSPTree f2' dec vc bs2" if "length bs2 \<le> length bs1" for bs2
      using that a1 by (intro Suc.IH) simp_all
    have sh: "length r < length bs1" if "ReadBSPTree f2' dec vc bs1 = Inr (t, r)" for t r
      using ReadBSPTree_fuel [OF a1(2), of dec vc] that by blast
    show ?thesis
      unfolding f2 using node e1 e2 sh
      by (auto simp add: split: sum.splits if_splits prod.splits dest!: sh less_imp_le)
  qed
qed

lemma switch_bad:
  "c \<notin> {0x00, 0xB0, 0x0F, 0xBF} \<longleftrightarrow> ReadBSPTree_switch c = Inl (Exit (CorruptFile c))"
  by (simp add: ReadBSPTree_switch_def)

lemma meets_bad_cFlag:
  "meets_cFlag dec vc bs c \<Longrightarrow> ReadBSPTree_switch c = Inl (Exit (CorruptFile c)) \<Longrightarrow> length bs < fuel \<Longrightarrow>
     ReadBSPTree fuel dec vc bs = Inl (Exit (CorruptFile c))"
proof (induction arbitrary: fuel rule: meets_cFlag.induct)
  case (at_node bs n tris p c r)
  from at_node.prems obtain f where f: "fuel = Suc f"
    by (cases fuel) simp_all
  show ?case
    unfolding f using at_node.hyps at_node.prems(1) by simp
next
  case (in_back bs n tris p f r hf c)
  from in_back.prems obtain g where g: "fuel = Suc g"
    by (cases fuel) simp_all
  have "length r < length bs"
    using in_back.hyps(1) by (rule ReadBSPTree_node_shorter)
  then have "length r < g"
    using in_back.prems g by simp
  with in_back.prems(1) have "ReadBSPTree g dec vc r = Inl (Exit (CorruptFile c))"
    by (rule in_back.IH)
  then show ?case
    unfolding g using in_back.hyps(1,2) by simp
next
  case (in_front bs n tris p f r c)
  from in_front.prems obtain g where g: "fuel = Suc g"
    by (cases fuel) simp_all
  have "length r < length bs"
    using in_front.hyps(1) by (rule ReadBSPTree_node_shorter)
  then have "length r < g"
    using in_front.prems g by simp
  with in_front.prems(1) have "ReadBSPTree g dec vc r = Inl (Exit (CorruptFile c))"
    by (rule in_front.IH)
  then show ?case
    unfolding g using in_front.hyps(1,2) by simp
next
  case (in_front_after_back bs n tris p f r t r' c)
  from in_front_after_back.prems obtain g where g: "fuel = Suc g"
    by (cases fuel) simp_all
  have "length r < length bs"
    using in_front_after_back.hyps(1) by (rule ReadBSPTree_node_shorter)
  then have lr: "length r < g"
    using in_front_after_back.prems g by simp
  have "ReadBSPTree g dec vc r = ReadBSPTree (Suc (length r)) dec vc r"
    using lr by (intro ReadBSPTree_fuel_indep) simp_all
  then have bk: "ReadBSPTree g dec vc r = Inr (t, r')"
    using in_front_after_back.hyps(3) by simp
  have "length r' < length r"
    using ReadBSPTree_fuel [OF lr, of dec vc] bk by blast
  then have "length r' < g"
    using lr by simp
  with in_front_after_back.prems(1) have "ReadBSPTree g dec vc r' = Inl (Exit (CorruptFile c))"
    by (rule in_front_after_back.IH)
  then show ?case
    unfolding g using in_front_after_back.hyps(1,2) bk by simp
qed

lemma bsp_header_ok_iff:
  "bsp_header_ok bs \<longleftrightarrow> 5 \<le> length bs \<and> take 4 bs = BSP_FILE_MAGIC @ [0] \<and> bs ! 4 = BSP_DATA_VER"
proof (cases "drop 4 bs")
  case Nil
  then show ?thesis
    by (simp add: bsp_header_ok_def)
next
  case (Cons y ys)
  then have "4 < length bs \<and> y = bs ! 4 \<and> ys = drop (Suc 4) bs"
    by (rule drop_eq_ConsD)
  then show ?thesis
    using Cons by (auto simp add: bsp_header_ok_def BSP_FILE_MAGIC_def BSP_DATA_VER_def)
qed

lemma LoadBSPTreeData_never_null:
  assumes "bsp_header_ok bs"
  shows "LoadBSPTreeData dec (Some bs) \<noteq> LoadNull" and "LoadBSPTreeData dec (Some bs) \<noteq> LoadStop OutOfFuel"
proof -
  have h: "5 \<le> length bs \<and> take 4 bs = BSP_FILE_MAGIC @ [0] \<and> bs ! 4 = BSP_DATA_VER"
    using assms by (simp only: bsp_header_ok_iff)
  show "LoadBSPTreeData dec (Some bs) \<noteq> LoadNull"
    unfolding LoadBSPTreeData_def using h by (simp split: option.splits sum.splits prod.splits)
  have "ReadBSPTree (Suc (length bs1)) dec vc bs1 \<noteq> Inl OutOfFuel" for bs1 vc
    using ReadBSPTree_fuel [of bs1 "Suc (length bs1)" dec vc] by simp
  then show "LoadBSPTreeData dec (Some bs) \<noteq> LoadStop OutOfFuel"
    unfolding LoadBSPTreeData_def using h
    by (auto simp del: ReadBSPTree.simps split: option.splits sum.splits prod.splits)
qed



lemma rd_array_numeral:
  "rd_array (numeral k) rd bs =
     (case rd bs of None \<Rightarrow> None
      | Some (x, bs') \<Rightarrow> (case rd_array (pred_numeral k) rd bs' of None \<Rightarrow> None | Some (xs, bs'') \<Rightarrow> Some (x # xs, bs'')))"
  by (simp add: numeral_eq_Suc)

lemma rd_array_1:
  "rd_array 1 rd bs = (case rd bs of None \<Rightarrow> None | Some (x, bs') \<Rightarrow> Some ([x], bs'))"
  unfolding One_nat_def by (simp split: option.splits)

lemma rd_name_a: "rd_name (0x61 # 0 # r) = Some ([0x61], r)"
  using rd_name_ok [of "[0x61]" r] by simp

lemma bad_flag_fields:
  "\<exists>d. LoadBSPTreeData_fields (drop 5 bad_flag_file) = Some (d, bad_flag_node) \<and> vertCoords_bsp d = [0, 0, 0]"
  by (simp add: bad_flag_file_def LoadBSPTreeData_fields_def rd_u16_le16 rd_u32_le32 rd_array_numeral rd_array_1
      rd_name_a)

lemma bad_flag_node_read:
  "ReadBSPTree_node dec_01 vc bad_flag_node = Inr (0, [], \<lparr> A = 0, B = 0, C = 0, D = 0 \<rparr>, 0x01, [])"
  by (simp add: bad_flag_node_def ReadBSPTree_node_def rd_u16_le16 ReadBSPTree_plane_def rd_plane_def
      rd_bytes_def rd_u8_def dec_01_def)

lemma bad_flag_header: "bsp_header_ok bad_flag_file"
  by (simp add: bsp_header_ok_def bad_flag_file_def)

lemma bad_flag_load:
  "LoadBSPTreeData dec_01 (Some bad_flag_file) = LoadStop (Exit (CorruptFile 0x01))"
proof -
  obtain d where d: "LoadBSPTreeData_fields (drop 5 bad_flag_file) = Some (d, bad_flag_node)"
    using bad_flag_fields by blast
  have h: "5 \<le> length bad_flag_file \<and> take 4 bad_flag_file = BSP_FILE_MAGIC @ [0] \<and> bad_flag_file ! 4 = BSP_DATA_VER"
    using bad_flag_header by (simp only: bsp_header_ok_iff)
  have "ReadBSPTree (Suc (length bad_flag_node)) dec_01 (vertCoords_bsp d) bad_flag_node = Inl (Exit (CorruptFile 0x01))"
    by (simp add: bad_flag_node_read ReadBSPTree_switch_def)
  then show ?thesis
    unfolding LoadBSPTreeData_def using h d by simp
qed





section \<open>Malformed files\<close>

text \<open>
  C1, as the code has it. For every byte stream given to \<open>LoadBSPTreeData\<close>: when the
  magic is not "BSP" with its NUL or the version byte is not \<open>0x10\<close>, the loader returns
  \<open>NULL\<close>. When the header is good the loader never returns \<open>NULL\<close>; and when the preorder
  read of the nodes meets a \<open>cFlag\<close> byte outside \<open>{0x00, 0xB0, 0x0F, 0xBF}\<close>, the process
  ends there through \<open>exit(EXIT_FAILURE)\<close>, so that nothing, and no partial tree, is
  returned to the caller.
\<close>

theorem LoadBSPTreeData_malformed:
  "(\<not> bsp_header_ok bs \<longrightarrow> LoadBSPTreeData dec (Some bs) = LoadNull) \<and>
   (bsp_header_ok bs \<longrightarrow> LoadBSPTreeData dec (Some bs) \<noteq> LoadNull \<and>
      (\<forall>d r c. LoadBSPTreeData_fields (drop 5 bs) = Some (d, r) \<and> meets_cFlag dec (vertCoords_bsp d) r c \<and>
           c \<notin> {0x00, 0xB0, 0x0F, 0xBF}
         \<longrightarrow> LoadBSPTreeData dec (Some bs) = LoadStop (Exit (CorruptFile c))))"
proof (intro conjI impI allI)
  assume "\<not> bsp_header_ok bs"
  then have n: "\<not> (5 \<le> length bs \<and> take 4 bs = BSP_FILE_MAGIC @ [0] \<and> bs ! 4 = BSP_DATA_VER)"
    unfolding bsp_header_ok_iff .
  show "LoadBSPTreeData dec (Some bs) = LoadNull"
    unfolding LoadBSPTreeData_def option.case if_not_P [OF n] by (rule refl)
next
  assume "bsp_header_ok bs"
  then show "LoadBSPTreeData dec (Some bs) \<noteq> LoadNull"
    by (rule LoadBSPTreeData_never_null)
next
  fix d r c
  assume ok: "bsp_header_ok bs"
    and m: "LoadBSPTreeData_fields (drop 5 bs) = Some (d, r) \<and> meets_cFlag dec (vertCoords_bsp d) r c \<and>
           c \<notin> {0x00, 0xB0, 0x0F, 0xBF}"
  have h: "5 \<le> length bs \<and> take 4 bs = BSP_FILE_MAGIC @ [0] \<and> bs ! 4 = BSP_DATA_VER"
    using ok by (simp only: bsp_header_ok_iff)
  have sw: "ReadBSPTree_switch c = Inl (Exit (CorruptFile c))"
    using m by (simp only: switch_bad)
  have "ReadBSPTree (Suc (length r)) dec (vertCoords_bsp d) r = Inl (Exit (CorruptFile c))"
    using m sw by (intro meets_bad_cFlag) simp_all
  then show "LoadBSPTreeData dec (Some bs) = LoadStop (Exit (CorruptFile c))"
    unfolding LoadBSPTreeData_def using h m by (simp del: ReadBSPTree.simps)
qed

theorem LoadBSPTreeData_malformed_witness:
  "\<not> bsp_header_ok [0x42, 0x53, 0x50, 0x00, 0x11] \<and>
   LoadBSPTreeData dec_01 (Some [0x42, 0x53, 0x50, 0x00, 0x11]) = LoadNull \<and>
   bsp_header_ok bad_flag_file \<and>
   (\<exists>d. LoadBSPTreeData_fields (drop 5 bad_flag_file) = Some (d, bad_flag_node) \<and>
        meets_cFlag dec_01 (vertCoords_bsp d) bad_flag_node 0x01) \<and>
   (0x01 :: Uint8) \<notin> {0x00, 0xB0, 0x0F, 0xBF} \<and>
   LoadBSPTreeData dec_01 (Some bad_flag_file) \<noteq> LoadNull \<and>
   LoadBSPTreeData dec_01 (Some bad_flag_file) = LoadStop (Exit (CorruptFile 0x01))"
proof -
  have a: "\<not> bsp_header_ok [0x42, 0x53, 0x50, 0x00, 0x11]"
    by (simp add: bsp_header_ok_def)
  obtain d where d: "LoadBSPTreeData_fields (drop 5 bad_flag_file) = Some (d, bad_flag_node)"
    using bad_flag_fields by blast
  have m: "meets_cFlag dec_01 (vertCoords_bsp d) bad_flag_node 0x01"
    using bad_flag_node_read by (rule meets_cFlag.at_node)
  have c: "(0x01 :: Uint8) \<notin> {0x00, 0xB0, 0x0F, 0xBF}"
    by simp
  have "LoadBSPTreeData dec_01 (Some [0x42, 0x53, 0x50, 0x00, 0x11]) = LoadNull"
    using LoadBSPTreeData_malformed [of "[0x42, 0x53, 0x50, 0x00, 0x11]" dec_01] a by blast
  moreover have "LoadBSPTreeData dec_01 (Some bad_flag_file) \<noteq> LoadNull \<and>
      LoadBSPTreeData dec_01 (Some bad_flag_file) = LoadStop (Exit (CorruptFile 0x01))"
    using LoadBSPTreeData_malformed [of bad_flag_file dec_01] bad_flag_header d m c by blast
  ultimately show ?thesis
    using a bad_flag_header d m c by blast
qed

text \<open>
  C1 as stated fails: the file \<open>bad_flag_file\<close> has a good header and the \<open>cFlag\<close> byte
  \<open>0x01\<close> in its root node, and \<open>LoadBSPTreeData\<close> does not return \<open>NULL\<close> for it: the
  \<open>default\<close> case of the \<open>switch\<close> in \<open>ReadBSPTree\<close> ends the process.
\<close>

theorem LoadBSPTreeData_bad_cFlag_counterexample:
  "bsp_header_ok bad_flag_file \<and>
   meets_cFlag dec_01 [0, 0, 0] bad_flag_node 0x01 \<and>
   (0x01 :: Uint8) \<notin> {0x00, 0xB0, 0x0F, 0xBF} \<and>
   LoadBSPTreeData dec_01 (Some bad_flag_file) \<noteq> LoadNull \<and>
   LoadBSPTreeData dec_01 (Some bad_flag_file) = LoadStop (Exit (CorruptFile 0x01))"
proof -
  have "meets_cFlag dec_01 [0, 0, 0] bad_flag_node 0x01"
    using bad_flag_node_read by (rule meets_cFlag.at_node)
  then show ?thesis
    using bad_flag_header bad_flag_load by simp
qed

section \<open>The plane of a node in the file\<close>



end
